theory Spec2Isabelle
  imports Main
begin

section \<open>Data model\<close>

text \<open>
  Values that can sit in a schema's allowed-value set (\<open>_valids._set\<close>): JavaScript
  primitives.  A number is given by the text JavaScript prints for it (\<open>3\<close>, \<open>-0.5\<close>,
  \<open>1e+21\<close>, \<open>Infinity\<close>): two numbers other than \<open>NaN\<close> are strictly equal exactly when
  they print alike, so strict equality (\<open>===\<close>, used by \<open>indexOf\<close>) on these values is
  equality of the datatype.  \<open>NaN\<close>, which is not equal to itself, is left out.
\<close>

datatype jsval = JStr string | JNum string | JBool bool | JNull

text \<open>
  A schema node, with the fields the generator reads:
  \<open>_type\<close>, \<open>_notes\<close>, \<open>_flags.presence\<close> (absent or a string), \<open>_valids._set\<close>,
  the names of the entries of \<open>_tests\<close>, \<open>_inner.items\<close>, \<open>_inner.children\<close>
  (pairs of \<open>key\<close> and \<open>schema\<close>) and the \<open>schema\<close> of each entry of \<open>_inner.matches\<close>.
\<close>

datatype schema = Schema
  (s_type: string)
  (s_notes: "string list")
  (s_presence: "string option")
  (s_valids: "jsval list")
  (s_tests: "string list")
  (s_items: "schema list")
  (s_children: "(string \<times> schema) list")
  (s_matches: "schema list")

text \<open>\<open>interface IDiscoverableType { name: string; type?: string; skip?: boolean; }\<close>\<close>

record discoverable =
  d_name :: string
  d_type :: "string option"
  d_skip :: "bool option"

type_synonym registry = "discoverable list"

text \<open>
  What the source throws: \<open>new Error(message)\<close>, or the runtime's \<open>TypeError\<close> when a
  property of \<open>undefined\<close> is read or a non-function is called.
\<close>

datatype error = Error string | TypeError

section \<open>Strings\<close>

definition dquote :: string where
  "dquote = [CHR 0x22]"

definition newline :: string where
  "newline = [CHR 0x0A]"

text \<open>\<open>Array.prototype.join\<close> on an array of strings.\<close>

fun js_join :: "string \<Rightarrow> string list \<Rightarrow> string" where
  "js_join sep [] = []"
| "js_join sep [x] = x"
| "js_join sep (x # y # ys) = x @ sep @ js_join sep (y # ys)"

text \<open>The string a template literal \<open>`${v}`\<close> gives for a primitive.\<close>

fun jsToString :: "jsval \<Rightarrow> string" where
  "jsToString (JStr s) = s"
| "jsToString (JNum printed) = printed"
| "jsToString (JBool b) = (if b then ''true'' else ''false'')"
| "jsToString JNull = ''null''"

text \<open>The string \<open>Array.prototype.join\<close> gives for an element: \<open>null\<close> is the empty string.\<close>

fun joinElem :: "jsval \<Rightarrow> string" where
  "joinElem JNull = []"
| "joinElem v = jsToString v"

section \<open>The named-type registry\<close>

text \<open>
  \<open>addDiscoveredType\<close> (both files): push unless an entry of that name is there.  The
  global array \<open>discoveredTypes\<close> is passed in and returned.
\<close>

definition addDiscoveredType :: "discoverable \<Rightarrow> registry \<Rightarrow> registry" where
  "addDiscoveredType t reg =
     (if find (\<lambda>typ. d_name typ = d_name t) reg \<noteq> None then reg else reg @ [t])"

section \<open>Notes and predicates\<close>

text \<open>\<open>typeCheck = /^type:/\<close>: \<open>test\<close> and \<open>replace\<close>.\<close>

definition typeCheck :: "string \<Rightarrow> bool" where
  "typeCheck n = (take 5 n = ''type:'')"

definition stripTypeCheck :: "string \<Rightarrow> string" where
  "stripTypeCheck n = (if typeCheck n then drop 5 n else n)"

definition usableNotes :: "schema \<Rightarrow> bool" where
  "usableNotes s = (find typeCheck (s_notes s) \<noteq> None)"

definition missingNotes :: string where
  "missingNotes = ''Must provide type information through notes.''"

definition nameFromNotes :: "string list \<Rightarrow> error + string" where
  "nameFromNotes notes =
     (case find typeCheck notes of
        None \<Rightarrow> Inl (Error missingNotes)
      | Some note \<Rightarrow> if note = [] then Inl (Error missingNotes) else Inr (stripTypeCheck note))"

definition unwrapNotes :: "string \<Rightarrow> string list \<Rightarrow> registry \<Rightarrow> error + string \<times> registry" where
  "unwrapNotes ty notes reg =
     (case nameFromNotes notes of
        Inl e \<Rightarrow> Inl e
      | Inr name \<Rightarrow>
          Inr (name, addDiscoveredType \<lparr>d_name = name, d_type = Some ty, d_skip = None\<rparr> reg))"

definition uuidCheck :: "schema \<Rightarrow> bool" where
  "uuidCheck s = (find (\<lambda>t. t = ''guid'') (s_tests s) \<noteq> None)"

definition alternativesCheck :: "schema \<Rightarrow> bool" where
  "alternativesCheck s = (s_type s = ''alternatives'')"

definition isRequiredSchema :: "schema \<Rightarrow> bool" where
  "isRequiredSchema s = ((case s_presence s of None \<Rightarrow> ''optional'' | Some p \<Rightarrow> p) = ''required'')"

definition getUnion :: "schema \<Rightarrow> jsval list" where
  "getUnion node = s_valids node"

definition joiToTypescript :: "string \<Rightarrow> string" where
  "joiToTypescript ty = (if ty = ''date'' then ''Date'' else ty)"

section \<open>The type deriver\<close>

text \<open>
  \<open>deriveType\<close>, \<open>unwrapArray\<close> and \<open>items.map(deriveType)\<close> of cli.ts.  The registry is
  threaded from one call to the next, left to right; a throw ends the derivation.
  \<open>const [item, ...rest] = items\<close> on an empty array makes \<open>item\<close> undefined, and
  \<open>deriveType(undefined)\<close> throws a TypeError at \<open>schema._type\<close>.
\<close>

fun cli_deriveType :: "schema \<Rightarrow> registry \<Rightarrow> error + string \<times> registry"
  and cli_unwrapArray :: "schema list \<Rightarrow> registry \<Rightarrow> error + string \<times> registry"
  and cli_mapDeriveType :: "schema list \<Rightarrow> registry \<Rightarrow> error + string list \<times> registry"
where
  "cli_deriveType (Schema ty notes pres valids tests items children matches) reg =
     (if ty = ''array'' then cli_unwrapArray items reg
      else if usableNotes (Schema ty notes pres valids tests items children matches)
        then unwrapNotes ty notes reg
      else if uuidCheck (Schema ty notes pres valids tests items children matches)
        then Inr (''Uuid'',
               addDiscoveredType \<lparr>d_name = ''Uuid'', d_type = Some ''string'', d_skip = None\<rparr> reg)
      else if alternativesCheck (Schema ty notes pres valids tests items children matches)
        then (case cli_mapDeriveType matches reg of
                Inl e \<Rightarrow> Inl e
              | Inr (types, reg') \<Rightarrow> Inr (js_join '' | '' types, reg'))
      else Inr (joiToTypescript ty, reg))"
| "cli_unwrapArray [] reg = Inl TypeError"
| "cli_unwrapArray (item # rest) reg =
     (if rest \<noteq> [] then
        (case cli_mapDeriveType (item # rest) reg of
           Inl e \<Rightarrow> Inl e
         | Inr (types, reg') \<Rightarrow> Inr (''Array<'' @ js_join '' | '' types @ ''>'', reg'))
      else
        (case cli_deriveType item reg of
           Inl e \<Rightarrow> Inl e
         | Inr (t, reg') \<Rightarrow> Inr (t @ ''[]'', reg')))"
| "cli_mapDeriveType [] reg = Inr ([], reg)"
| "cli_mapDeriveType (x # xs) reg =
     (case cli_deriveType x reg of
        Inl e \<Rightarrow> Inl e
      | Inr (t, reg') \<Rightarrow>
          (case cli_mapDeriveType xs reg' of
             Inl e \<Rightarrow> Inl e
           | Inr (ts, reg'') \<Rightarrow> Inr (t # ts, reg'')))"


text \<open>The same three of index.ts, which has no alternatives case.\<close>

fun idx_deriveType :: "schema \<Rightarrow> registry \<Rightarrow> error + string \<times> registry"
  and idx_unwrapArray :: "schema list \<Rightarrow> registry \<Rightarrow> error + string \<times> registry"
  and idx_mapDeriveType :: "schema list \<Rightarrow> registry \<Rightarrow> error + string list \<times> registry"
where
  "idx_deriveType (Schema ty notes pres valids tests items children matches) reg =
     (if ty = ''array'' then idx_unwrapArray items reg
      else if usableNotes (Schema ty notes pres valids tests items children matches)
        then unwrapNotes ty notes reg
      else if uuidCheck (Schema ty notes pres valids tests items children matches)
        then Inr (''Uuid'',
               addDiscoveredType \<lparr>d_name = ''Uuid'', d_type = Some ''string'', d_skip = None\<rparr> reg)
      else Inr (joiToTypescript ty, reg))"
| "idx_unwrapArray [] reg = Inl TypeError"
| "idx_unwrapArray (item # rest) reg =
     (if rest \<noteq> [] then
        (case idx_mapDeriveType (item # rest) reg of
           Inl e \<Rightarrow> Inl e
         | Inr (types, reg') \<Rightarrow> Inr (''Array<'' @ js_join '' | '' types @ ''>'', reg'))
      else
        (case idx_deriveType item reg of
           Inl e \<Rightarrow> Inl e
         | Inr (t, reg') \<Rightarrow> Inr (t @ ''[]'', reg')))"
| "idx_mapDeriveType [] reg = Inr ([], reg)"
| "idx_mapDeriveType (x # xs) reg =
     (case idx_deriveType x reg of
        Inl e \<Rightarrow> Inl e
      | Inr (t, reg') \<Rightarrow>
          (case idx_mapDeriveType xs reg' of
             Inl e \<Rightarrow> Inl e
           | Inr (ts, reg'') \<Rightarrow> Inr (t # ts, reg'')))"

section \<open>The union/alias resolver\<close>

text \<open>
  The second argument of \<open>writeTypeAlias\<close>: a schema node when a top-level schema is
  written, the \<open>type\<close> of a registry entry (a string, or undefined) when the registry is
  flushed.
\<close>

datatype alias_arg = Undefined | Str string | Node schema

text \<open>
  The body of the \<open>forEach\<close> over the allowed values: the candidate is the quoted text for
  a string schema and the value itself otherwise, pushed unless \<open>indexOf\<close> finds it.
\<close>

definition candidate :: "string \<Rightarrow> jsval \<Rightarrow> jsval" where
  "candidate baseType opt =
     (if baseType = ''string'' then JStr (dquote @ jsToString opt @ dquote) else opt)"

fun collectOut :: "string \<Rightarrow> jsval list \<Rightarrow> jsval list \<Rightarrow> jsval list" where
  "collectOut baseType [] out = out"
| "collectOut baseType (opt # opts) out =
     collectOut baseType opts
       (if candidate baseType opt \<in> set out then out else out @ [candidate baseType opt])"

definition idx_resolveTypeDefinition :: "alias_arg \<Rightarrow> error + string" where
  "idx_resolveTypeDefinition arg =
     (case arg of
        Str node \<Rightarrow> Inr node
      | Undefined \<Rightarrow> Inl TypeError
      | Node node \<Rightarrow>
          (let baseType = s_type node;
               options = getUnion node;
               out = (if options \<noteq> [] then collectOut baseType options []
                      else [JStr (joiToTypescript baseType)])
           in Inr (js_join '' | '' (map joinElem out))))"

definition cli_resolveTypeDefinition :: "alias_arg \<Rightarrow> error + string" where
  "cli_resolveTypeDefinition arg =
     (case arg of
        Str node \<Rightarrow> Inr ('' '' @ node)
      | Undefined \<Rightarrow> Inl TypeError
      | Node node \<Rightarrow>
          (let baseType = s_type node;
               options = getUnion node
           in if options \<noteq> [] then
                Inr (concat (map (\<lambda>str. newline @ ''  | '' @ jsToString str)
                               (collectOut baseType options [])))
              else Inr ('' '' @ joiToTypescript baseType)))"

section \<open>The declaration writers\<close>

definition idx_writeTypeAlias :: "string \<Rightarrow> alias_arg \<Rightarrow> error + string" where
  "idx_writeTypeAlias typeName ty =
     (case idx_resolveTypeDefinition ty of
        Inl e \<Rightarrow> Inl e
      | Inr d \<Rightarrow> Inr (''export type '' @ typeName @ '' = '' @ d @ '';''))"

definition cli_writeTypeAlias :: "string \<Rightarrow> alias_arg \<Rightarrow> error + string" where
  "cli_writeTypeAlias typeName ty =
     (case cli_resolveTypeDefinition ty of
        Inl e \<Rightarrow> Inl e
      | Inr d \<Rightarrow> Inr (''export type '' @ typeName @ '' ='' @ d @ '';''))"

definition idx_propName :: "string \<times> schema \<Rightarrow> string" where
  "idx_propName child =
     (if (case s_presence (snd child) of None \<Rightarrow> ''optional'' | Some p \<Rightarrow> p) = ''required''
      then fst child else fst child @ ''?'')"

definition cli_propName :: "bool \<Rightarrow> string \<times> schema \<Rightarrow> string" where
  "cli_propName useOptionTypes child =
     (if isRequiredSchema (snd child) \<or> useOptionTypes then fst child else fst child @ ''?'')"

definition optionTypeWrapper :: "string \<Rightarrow> string" where
  "optionTypeWrapper ty = ''Option<'' @ ty @ ''>''"

text \<open>\<open>children.map(child => ...)\<close> of the two \<open>writeInterfaceType\<close>.\<close>

fun idx_mapChildren :: "(string \<times> schema) list \<Rightarrow> registry \<Rightarrow> error + string list \<times> registry" where
  "idx_mapChildren [] reg = Inr ([], reg)"
| "idx_mapChildren (child # rest) reg =
     (case idx_deriveType (snd child) reg of
        Inl e \<Rightarrow> Inl e
      | Inr (t, reg') \<Rightarrow>
          (case idx_mapChildren rest reg' of
             Inl e \<Rightarrow> Inl e
           | Inr (ls, reg'') \<Rightarrow>
               Inr ((''  '' @ idx_propName child @ '': '' @ t @ '';'') # ls, reg'')))"

fun cli_mapChildren ::
  "bool \<Rightarrow> (string \<times> schema) list \<Rightarrow> registry \<Rightarrow> error + string list \<times> registry" where
  "cli_mapChildren useOptionTypes [] reg = Inr ([], reg)"
| "cli_mapChildren useOptionTypes (child # rest) reg =
     (let wrap = (if \<not> isRequiredSchema (snd child) \<and> useOptionTypes
                  then optionTypeWrapper else id)
      in case cli_deriveType (snd child) reg of
           Inl e \<Rightarrow> Inl e
         | Inr (t, reg') \<Rightarrow>
             (case cli_mapChildren useOptionTypes rest reg' of
                Inl e \<Rightarrow> Inl e
              | Inr (ls, reg'') \<Rightarrow>
                  Inr ((''  '' @ cli_propName useOptionTypes child @ '': '' @ wrap t @ '';'') # ls,
                       reg'')))"

definition idx_writeInterfaceType :: "string \<Rightarrow> schema \<Rightarrow> registry \<Rightarrow> error + string \<times> registry" where
  "idx_writeInterfaceType typeName s reg =
     (case idx_mapChildren (s_children s) reg of
        Inl e \<Rightarrow> Inl e
      | Inr (ls, reg') \<Rightarrow>
          Inr (''export interface '' @ typeName @ '' {'' @ newline
                 @ js_join newline ls @ newline @ ''}'', reg'))"

definition cli_writeInterfaceType ::
  "bool \<Rightarrow> string \<Rightarrow> schema \<Rightarrow> registry \<Rightarrow> error + string \<times> registry" where
  "cli_writeInterfaceType useOptionTypes typeName s reg =
     (case cli_mapChildren useOptionTypes (s_children s) reg of
        Inl e \<Rightarrow> Inl e
      | Inr (ls, reg') \<Rightarrow>
          Inr (''export interface '' @ typeName @ '' {'' @ newline
                 @ js_join newline ls @ newline @ ''}'', reg'))"

text \<open>
  \<open>typeWriters[schema._type](name, schema)\<close>: the table has the keys \<open>array\<close>, \<open>object\<close>
  and \<open>string\<close>; for another kind the lookup is undefined and the call throws a TypeError.
\<close>

definition idx_typeWriters :: "string \<Rightarrow> schema \<Rightarrow> registry \<Rightarrow> error + string \<times> registry" where
  "idx_typeWriters name s reg =
     (if s_type s = ''array'' \<or> s_type s = ''string'' then
        (case idx_writeTypeAlias name (Node s) of Inl e \<Rightarrow> Inl e | Inr d \<Rightarrow> Inr (d, reg))
      else if s_type s = ''object'' then idx_writeInterfaceType name s reg
      else Inl TypeError)"

definition cli_typeWriters ::
  "bool \<Rightarrow> string \<Rightarrow> schema \<Rightarrow> registry \<Rightarrow> error + string \<times> registry" where
  "cli_typeWriters useOptionTypes name s reg =
     (if s_type s = ''array'' \<or> s_type s = ''string'' then
        (case cli_writeTypeAlias name (Node s) of Inl e \<Rightarrow> Inl e | Inr d \<Rightarrow> Inr (d, reg))
      else if s_type s = ''object'' then cli_writeInterfaceType useOptionTypes name s reg
      else Inl TypeError)"

section \<open>Output assembly\<close>

text \<open>\<open>t => !t.skip\<close>: an absent \<open>skip\<close> is falsy.\<close>

definition notSkipped :: "discoverable \<Rightarrow> bool" where
  "notSkipped t = (d_skip t \<noteq> Some True)"

definition typeArg :: "discoverable \<Rightarrow> alias_arg" where
  "typeArg t = (case d_type t of None \<Rightarrow> Undefined | Some ty \<Rightarrow> Str ty)"

text \<open>
  \<open>.forEach(type => output.unshift(writeTypeAlias(type.name, type.type)))\<close>: each alias
  goes to the front of the output built so far.
\<close>

fun idx_unshiftAliases :: "discoverable list \<Rightarrow> string list \<Rightarrow> error + string list" where
  "idx_unshiftAliases [] output = Inr output"
| "idx_unshiftAliases (t # ts) output =
     (case idx_writeTypeAlias (d_name t) (typeArg t) of
        Inl e \<Rightarrow> Inl e
      | Inr a \<Rightarrow> idx_unshiftAliases ts (a # output))"

fun cli_unshiftAliases :: "discoverable list \<Rightarrow> string list \<Rightarrow> error + string list" where
  "cli_unshiftAliases [] output = Inr output"
| "cli_unshiftAliases (t # ts) output =
     (case cli_writeTypeAlias (d_name t) (typeArg t) of
        Inl e \<Rightarrow> Inl e
      | Inr a \<Rightarrow> cli_unshiftAliases ts (a # output))"

text \<open>
  index.ts, \<open>runTypeGenerator\<close>.  The loaded module is the list of its exports in key
  order.  \<open>idx_mapExports\<close> is the \<open>map\<close> over \<open>Object.keys(objects)\<close>; the result of
  \<open>idx_runTypeGenerator\<close> is the array \<open>output\<close> after the aliases are put in front, the
  text written to \<open>destPath\<close> being its join with two newlines.
\<close>

fun idx_mapExports :: "(string \<times> schema) list \<Rightarrow> registry \<Rightarrow> error + string list \<times> registry" where
  "idx_mapExports [] reg = Inr ([], reg)"
| "idx_mapExports ((typeName, ty) # rest) reg =
     (if usableNotes ty then
        (case nameFromNotes (s_notes ty) of
           Inl e \<Rightarrow> Inl e
         | Inr name \<Rightarrow>
             (case idx_typeWriters name ty
                     (addDiscoveredType \<lparr>d_name = name, d_type = None, d_skip = Some True\<rparr> reg) of
                Inl e \<Rightarrow> Inl e
              | Inr (d, reg') \<Rightarrow>
                  (case idx_mapExports rest reg' of
                     Inl e \<Rightarrow> Inl e
                   | Inr (ds, reg'') \<Rightarrow> Inr (d # ds, reg''))))
      else
        (case idx_mapExports rest reg of
           Inl e \<Rightarrow> Inl e
         | Inr (ds, reg'') \<Rightarrow> Inr ([] # ds, reg'')))"

definition idx_runTypeGenerator :: "(string \<times> schema) list \<Rightarrow> error + string list" where
  "idx_runTypeGenerator objects =
     (case idx_mapExports objects [] of
        Inl e \<Rightarrow> Inl e
      | Inr (output, discoveredTypes) \<Rightarrow>
          idx_unshiftAliases (filter notSkipped discoveredTypes) output)"

definition idx_fileText :: "string list \<Rightarrow> string" where
  "idx_fileText output = js_join (newline @ newline) output"

text \<open>
  cli.ts, \<open>runTypeGenerator\<close>, up to the types file.  The callback of
  \<open>map(schemaTypes, ...)\<close> pushes the note \<open>type:<name>\<close> onto the schema object's own
  \<open>_notes\<close> array, and the same object can be reached again, as a child of another export
  or under a second export name.  So the input of cli.ts is a store of schema objects:
  an object is a \<open>node\<close>, whose items, children and matches are addresses of other
  objects, and an export is a name with the address of its schema.  Addresses are in order
  of creation: Joi builds a schema from schemas that exist already, so the references of
  an object point below its own address.
\<close>

record node =
  n_type :: string
  n_notes :: "string list"
  n_presence :: "string option"
  n_valids :: "jsval list"
  n_tests :: "string list"
  n_items :: "nat list"
  n_children :: "(string \<times> nat) list"
  n_matches :: "nat list"

type_synonym store = "node list"

text \<open>
  The schema tree the writers and the deriver read at an address, in the store as it is
  at that moment.  (They read the store and do not change it.)  A reference that does not
  point below the object is none of a schema Joi builds; the tree is undefined then.
\<close>

function schemaAt :: "store \<Rightarrow> nat \<Rightarrow> schema option" where
  "schemaAt st a =
     (if a < length st then
        (case (those (map (\<lambda>c. if c < a then schemaAt st c else None) (n_items (st ! a))),
               those (map (\<lambda>kc. if snd kc < a
                                 then map_option (Pair (fst kc)) (schemaAt st (snd kc))
                                 else None) (n_children (st ! a))),
               those (map (\<lambda>c. if c < a then schemaAt st c else None) (n_matches (st ! a)))) of
           (Some items, Some children, Some matches) \<Rightarrow>
             Some (Schema (n_type (st ! a)) (n_notes (st ! a)) (n_presence (st ! a))
                     (n_valids (st ! a)) (n_tests (st ! a)) items children matches)
         | _ \<Rightarrow> None)
      else None)"
  by pat_completeness auto
termination
  by (relation "measure (\<lambda>(st, a). a)") auto

declare schemaAt.simps [simp del]

text \<open>
  \<open>schemaCheck = /Schema$/\<close> selects the exports and is stripped from their names.
  \<open>schemaTypes\<close> is an object built key by key, and JavaScript enumerates the keys of an
  object that are array indices (canonical decimal numerals below \<open>2^32 - 1\<close>) first, in
  ascending order, and the other keys after them in the order they were added.  The
  exports are the list of the module's keys in the order JavaScript enumerates them;
  the keys of an object are pairwise different.
\<close>

definition schemaCheck :: "string \<Rightarrow> bool" where
  "schemaCheck name = (drop (length name - 6) name = ''Schema'')"

definition stripSchemaCheck :: "string \<Rightarrow> string" where
  "stripSchemaCheck name = (if schemaCheck name then take (length name - 6) name else name)"

definition digitValue :: "char \<Rightarrow> nat option" where
  "digitValue c = map_of (zip ''0123456789'' [0, 1, 2, 3, 4, 5, 6, 7, 8, 9]) c"

fun numeralValue :: "nat \<Rightarrow> string \<Rightarrow> nat option" where
  "numeralValue n [] = Some n"
| "numeralValue n (c # cs) =
     (case digitValue c of None \<Rightarrow> None | Some d \<Rightarrow> numeralValue (10 * n + d) cs)"

definition arrayIndex :: "string \<Rightarrow> nat option" where
  "arrayIndex key =
     (if key = [] \<or> (hd key = CHR ''0'' \<and> key \<noteq> ''0'') then None
      else (case numeralValue 0 key of
              None \<Rightarrow> None
            | Some n \<Rightarrow> if n < 4294967295 then Some n else None))"

definition enumerationOrder :: "(string \<times> 'a) list \<Rightarrow> (string \<times> 'a) list" where
  "enumerationOrder entries =
     sort_key (\<lambda>(key, val). the (arrayIndex key))
       (filter (\<lambda>(key, val). arrayIndex key \<noteq> None) entries)
     @ filter (\<lambda>(key, val). arrayIndex key = None) entries"

definition cli_schemaTypes :: "(string \<times> nat) list \<Rightarrow> (string \<times> nat) list" where
  "cli_schemaTypes exported =
     enumerationOrder
       (map (\<lambda>(key, val). (stripSchemaCheck key, val))
          (filter (\<lambda>(key, val). schemaCheck key) exported))"

text \<open>
  \<open>if (!schema._notes.find(n => n === `type:${name}`)) { schema._notes.push(...) }\<close> on
  the object at an address.
\<close>

definition pushNote :: "string \<Rightarrow> nat \<Rightarrow> store \<Rightarrow> store" where
  "pushNote name a st =
     (if find (\<lambda>n. n = ''type:'' @ name) (n_notes (st ! a)) \<noteq> None then st
      else st[a := (st ! a)\<lparr>n_notes := n_notes (st ! a) @ [''type:'' @ name]\<rparr>])"

text \<open>
  The \<open>map\<close> over \<open>schemaTypes\<close>.  An export whose value is no object of the store is
  undefined, and \<open>schema._type\<close> throws.  The store is returned as the run leaves it.
\<close>

fun cli_mapSchemas ::
  "bool \<Rightarrow> store \<Rightarrow> (string \<times> nat) list \<Rightarrow> registry
     \<Rightarrow> error + store \<times> string list \<times> registry" where
  "cli_mapSchemas useOptionTypes st [] reg = Inr (st, [], reg)"
| "cli_mapSchemas useOptionTypes st ((name, a) # rest) reg =
     (if a < length st then
        (case schemaAt (pushNote name a st) a of
           None \<Rightarrow> Inl TypeError
         | Some schema \<Rightarrow>
             (case cli_typeWriters useOptionTypes name schema
                     (addDiscoveredType \<lparr>d_name = name, d_type = None, d_skip = Some True\<rparr> reg) of
                Inl e \<Rightarrow> Inl e
              | Inr (d, reg') \<Rightarrow>
                  (case cli_mapSchemas useOptionTypes (pushNote name a st) rest reg' of
                     Inl e \<Rightarrow> Inl e
                   | Inr (st', ds, reg'') \<Rightarrow> Inr (st', d # ds, reg''))))
      else Inl TypeError)"

definition optionImport :: string where
  "optionImport = ''import { Option } from '' @ dquote @ ''fp-ts/lib/Option'' @ dquote @ '';''"

definition cli_runTypeGenerator ::
  "bool \<Rightarrow> store \<Rightarrow> (string \<times> nat) list \<Rightarrow> error + store \<times> string list" where
  "cli_runTypeGenerator useOptionTypes st exported =
     (case cli_mapSchemas useOptionTypes st (cli_schemaTypes exported) [] of
        Inl e \<Rightarrow> Inl e
      | Inr (st', schemaOutput, discoveredTypes) \<Rightarrow>
          (case cli_unshiftAliases (filter notSkipped discoveredTypes) schemaOutput of
             Inl e \<Rightarrow> Inl e
           | Inr out \<Rightarrow>
               Inr (st', if useOptionTypes then optionImport # out else out)))"

definition cli_fileText :: "string list \<Rightarrow> string" where
  "cli_fileText schemaOutput = js_join (newline @ newline) schemaOutput @ newline"

section \<open>The argument check of index.ts\<close>

text \<open>
  \<open>argv[2]\<close> and \<open>argv[3]\<close> are undefined when the array is too short; \<open>!x\<close> holds of
  undefined and of the empty string.  The check either ends the process with
  \<open>process.exit(1)\<close> or lets control reach \<open>require(sourcePath)\<close>.
\<close>

datatype outcome = Exit nat | Continue "string option" "string option"

definition argvAt :: "string list \<Rightarrow> nat \<Rightarrow> string option" where
  "argvAt argv i = (if i < length argv then Some (argv ! i) else None)"

definition falsy :: "string option \<Rightarrow> bool" where
  "falsy x = (case x of None \<Rightarrow> True | Some s \<Rightarrow> s = [])"

definition argumentCheck :: "string list \<Rightarrow> outcome" where
  "argumentCheck argv =
     (let sourcePath = argvAt argv 2; destPath = argvAt argv 3
      in if falsy sourcePath \<and> falsy destPath then Exit 1 else Continue sourcePath destPath)"

section \<open>The coercion template\<close>

text \<open>
  \<open>coerceValue\<close> of the template works on JavaScript values: primitives (a number given
  by its printed text), and references to objects in a heap, each with its own properties
  and frozen or not (\<open>o_frozen\<close> is what \<open>Object.isFrozen\<close> answers).  Options are maps
  from option names; \<open>Object.assign({}, defaultOptions, options)\<close> skips an undefined
  \<open>options\<close>.
\<close>

datatype optval = OBool bool | OStr string

definition defaultOptions :: "string \<rightharpoonup> optval" where
  "defaultOptions =
     [''allowUnknown'' \<mapsto> OBool True, ''convert'' \<mapsto> OBool True,
      ''presence'' \<mapsto> OStr ''optional'', ''stripUnknown'' \<mapsto> OBool True]"

definition resolveOptions :: "(string \<rightharpoonup> 'o) \<Rightarrow> (string \<rightharpoonup> 'o) option \<Rightarrow> (string \<rightharpoonup> 'o)" where
  "resolveOptions defaults options =
     (case options of None \<Rightarrow> defaults | Some opts \<Rightarrow> defaults ++ opts)"

datatype jsvalue = VUndefined | VNull | VBool bool | VNum string | VStr string | VRef nat

record jsobject =
  o_props :: "(string \<times> jsvalue) list"
  o_frozen :: bool

type_synonym heap = "jsobject list"

text \<open>The addresses the own properties of an object refer to, in property order.\<close>

fun refOf :: "jsvalue \<Rightarrow> nat list" where
  "refOf (VRef a) = [a]"
| "refOf v = []"

definition refs :: "jsobject \<Rightarrow> nat list" where
  "refs ob = concat (map (\<lambda>p. refOf (snd p)) (o_props ob))"

text \<open>
  deep-freeze-strict, the library behind \<open>freeze\<close>.  Its \<open>deepFreeze(o)\<close> calls
  \<open>Object.freeze(o)\<close>, then for every own property of \<open>o\<close> whose value is an object that
  is not frozen at that moment calls itself on that value, and returns \<open>o\<close> itself.
  \<open>Object.getOwnPropertyNames(o)\<close> throws a TypeError when \<open>o\<close> is undefined or null; a
  primitive has no property that is an object and comes back as it is.  The recursion is
  written here with the list of addresses still to visit, the properties of the object
  just frozen in front, which freezes the same objects in the same order.  (Functions,
  which the library treats like objects, are not among the values.  A reference to no
  object of the heap is no value of a program.)
\<close>

definition freezeAt :: "nat \<Rightarrow> heap \<Rightarrow> heap" where
  "freezeAt a h = h[a := (h ! a)\<lparr>o_frozen := True\<rparr>]"

definition unfrozen :: "heap \<Rightarrow> nat" where
  "unfrozen h = length (filter (\<lambda>ob. \<not> o_frozen ob) h)"

function freezeAll :: "heap \<Rightarrow> nat list \<Rightarrow> heap" where
  "freezeAll h [] = h"
| "freezeAll h (a # todo) =
     (if a < length h \<and> \<not> o_frozen (h ! a)
      then freezeAll (freezeAt a h) (refs (h ! a) @ todo)
      else freezeAll h todo)"
  by pat_completeness auto
termination
proof -
  have fewer: "a < length h \<Longrightarrow> \<not> o_frozen (h ! a) \<Longrightarrow> unfrozen (freezeAt a h) < unfrozen h"
    for a and h :: heap
  proof (induction h arbitrary: a)
    case Nil
    then show ?case by simp
  next
    case (Cons ob h)
    show ?case
    proof (cases a)
      case 0
      with Cons.prems show ?thesis by (simp add: unfrozen_def freezeAt_def)
    next
      case (Suc b)
      with Cons.prems have "unfrozen (freezeAt b h) < unfrozen h" by (simp add: Cons.IH)
      with Suc show ?thesis by (simp add: unfrozen_def freezeAt_def)
    qed
  qed
  show ?thesis
    by (relation "measures [\<lambda>(h, todo). unfrozen h, \<lambda>(h, todo). length todo]")
       (auto simp: fewer)
qed

definition deepFreeze :: "heap \<Rightarrow> jsvalue \<Rightarrow> error + heap \<times> jsvalue" where
  "deepFreeze h v =
     (case v of
        VUndefined \<Rightarrow> Inl TypeError
      | VNull \<Rightarrow> Inl TypeError
      | VRef a \<Rightarrow>
          if a < length h then Inr (freezeAll (freezeAt a h) (refs (h ! a)), VRef a)
          else Inr (h, VRef a)
      | _ \<Rightarrow> Inr (h, v))"

text \<open>
  \<open>joi.validate\<close> is a library and a parameter here: from the heap, the raw value, the
  schema and the options it gives the heap it leaves and the pair \<open>(err, result)\<close> its
  callback receives (the callback runs before \<open>validate\<close> returns).  What \<open>coerceValue\<close>
  throws is the validation error itself, or the runtime's error.
\<close>

datatype 'e thrown = ValidationError 'e | RuntimeError error

definition coerceValue ::
  "(heap \<Rightarrow> jsvalue \<Rightarrow> 's \<Rightarrow> (string \<rightharpoonup> optval) \<Rightarrow> heap \<times> 'e option \<times> jsvalue) \<Rightarrow> 's
     \<Rightarrow> heap \<Rightarrow> jsvalue \<Rightarrow> (string \<rightharpoonup> optval) option \<Rightarrow> 'e thrown + heap \<times> jsvalue" where
  "coerceValue validate schema h object options =
     (let resolvedOptions = resolveOptions defaultOptions options
      in case validate h object schema resolvedOptions of
           (h', Some err, result) \<Rightarrow> Inl (ValidationError err)
         | (h', None, result) \<Rightarrow>
             (case deepFreeze h' result of
                Inl e \<Rightarrow> Inl (RuntimeError e)
              | Inr frozen \<Rightarrow> Inr frozen))"

section \<open>Sequences of registrations\<close>

text \<open>
  A run registers one entry after the other; \<open>entriesNamed\<close> are the entries of the
  registry under one name.
\<close>

fun registerAll :: "discoverable list \<Rightarrow> registry \<Rightarrow> registry" where
  "registerAll [] reg = reg"
| "registerAll (t # ts) reg = registerAll ts (addDiscoveredType t reg)"

definition entriesNamed :: "string \<Rightarrow> registry \<Rightarrow> discoverable list" where
  "entriesNamed n reg = filter (\<lambda>e. d_name e = n) reg"

section \<open>Derivations in sequence\<close>

text \<open>
  The registry states between the derivations of a sequence of nodes: \<open>rs ! i\<close> is the
  registry before node \<open>i\<close> is derived and \<open>rs ! Suc i\<close> the one after.
\<close>

definition derivedInOrder ::
  "(schema \<Rightarrow> registry \<Rightarrow> error + string \<times> registry)
     \<Rightarrow> schema list \<Rightarrow> registry \<Rightarrow> string list \<Rightarrow> registry \<Rightarrow> bool" where
  "derivedInOrder derive nodes reg ts reg' =
     (length ts = length nodes \<and>
      (\<exists>rs. length rs = Suc (length nodes) \<and> rs ! 0 = reg \<and> rs ! length nodes = reg' \<and>
            (\<forall>i<length nodes. derive (nodes ! i) (rs ! i) = Inr (ts ! i, rs ! Suc i))))"

section \<open>Unions of allowed values\<close>

text \<open>
  Deduplication that keeps the first occurrence of every element, in order; and the
  quoted text of an allowed value.
\<close>

fun firstSeen :: "'a list \<Rightarrow> 'a list" where
  "firstSeen [] = []"
| "firstSeen (x # xs) = x # firstSeen (removeAll x xs)"

definition quoted :: "jsval \<Rightarrow> string" where
  "quoted v = dquote @ jsToString v @ dquote"

section \<open>Field lines\<close>

text \<open>
  The field line of a record declaration as the specification words it, for a child and
  the derived type of its schema.
\<close>

definition required :: "string \<times> schema \<Rightarrow> bool" where
  "required child = (s_presence (snd child) = Some ''required'')"

definition fieldLine :: "bool \<Rightarrow> string \<times> schema \<Rightarrow> string \<Rightarrow> string" where
  "fieldLine useOptionTypes child t =
     ''  '' @ fst child @ (if \<not> required child \<and> \<not> useOptionTypes then ''?'' else '''')
       @ '': '' @ (if \<not> required child \<and> useOptionTypes then ''Option<'' @ t @ ''>'' else t)
       @ '';''"

section \<open>Registry entries and their aliases\<close>

text \<open>
  A record with an identifier field and a field annotated \<open>type:Money\<close>, as a tree and
  as a store of three objects, and the registry a run over it leaves.
\<close>

definition widget :: schema where
  "widget = Schema ''object'' [''type:Widget''] None [] [] []
     [(''id'', Schema ''string'' [] None [] [''guid''] [] [] []),
      (''price'', Schema ''number'' [''type:Money''] (Some ''required'') [] [] [] [] [])] []"

definition widgetStore :: store where
  "widgetStore =
     [\<lparr>n_type = ''string'', n_notes = [], n_presence = None, n_valids = [],
        n_tests = [''guid''], n_items = [], n_children = [], n_matches = []\<rparr>,
      \<lparr>n_type = ''number'', n_notes = [''type:Money''], n_presence = Some ''required'',
        n_valids = [], n_tests = [], n_items = [], n_children = [], n_matches = []\<rparr>,
      \<lparr>n_type = ''object'', n_notes = [''type:Widget''], n_presence = None, n_valids = [],
        n_tests = [], n_items = [], n_children = [(''id'', 0), (''price'', 1)],
        n_matches = []\<rparr>]"

definition widgetRegistry :: registry where
  "widgetRegistry =
     [\<lparr>d_name = ''Widget'', d_type = None, d_skip = Some True\<rparr>,
      \<lparr>d_name = ''Uuid'', d_type = Some ''string'', d_skip = None\<rparr>,
      \<lparr>d_name = ''Money'', d_type = Some ''number'', d_skip = None\<rparr>]"

text \<open>
  Every entry of the registry that is not marked \<open>skip\<close> has a \<open>type\<close>; and the plain
  alias declaration of such an entry.
\<close>

definition typed :: "registry \<Rightarrow> bool" where
  "typed reg = (\<forall>t\<in>set reg. notSkipped t \<longrightarrow> d_type t \<noteq> None)"

definition plainAlias :: "discoverable \<Rightarrow> string" where
  "plainAlias t = ''export type '' @ d_name t @ '' = '' @ the (d_type t) @ '';''"

section \<open>Frozen heaps\<close>

text \<open>
  The values that are neither undefined, null nor an object.  A heap is \<open>closed\<close> when
  every frozen object refers to frozen objects only: then everything that can be reached
  from a frozen object is frozen.  \<open>pending\<close> is the same with the objects still to
  visit excepted.
\<close>

fun isPrimitive :: "jsvalue \<Rightarrow> bool" where
  "isPrimitive (VBool b) = True"
| "isPrimitive (VNum n) = True"
| "isPrimitive (VStr s) = True"
| "isPrimitive v = False"

definition closed :: "heap \<Rightarrow> bool" where
  "closed h = (\<forall>a<length h. o_frozen (h ! a) \<longrightarrow>
                 (\<forall>c\<in>set (refs (h ! a)). c < length h \<longrightarrow> o_frozen (h ! c)))"

definition pending :: "heap \<Rightarrow> nat list \<Rightarrow> bool" where
  "pending h todo = (\<forall>a<length h. o_frozen (h ! a) \<longrightarrow>
                 (\<forall>c\<in>set (refs (h ! a)). c < length h \<longrightarrow> o_frozen (h ! c) \<or> c \<in> set todo))"

section \<open>Notes pushed by a run\<close>

text \<open>
  What the run does to a notes array: the note of a name is appended unless it is there.
  \<open>pushNotes\<close> are the pushes of a run in its order, \<open>exportedAs\<close> the names under which
  an object is exported.
\<close>

definition addNote :: "string \<Rightarrow> string list \<Rightarrow> string list" where
  "addNote name nts = (if ''type:'' @ name \<in> set nts then nts else nts @ [''type:'' @ name])"

fun addNotes :: "string list \<Rightarrow> string list \<Rightarrow> string list" where
  "addNotes [] nts = nts"
| "addNotes (name # names) nts = addNotes names (addNote name nts)"

fun pushNotes :: "(string \<times> nat) list \<Rightarrow> store \<Rightarrow> store" where
  "pushNotes [] st = st"
| "pushNotes ((name, a) # rest) st = pushNotes rest (pushNote name a st)"

definition exportedAs :: "nat \<Rightarrow> (string \<times> nat) list \<Rightarrow> string list" where
  "exportedAs a schemaTypes = map fst (filter (\<lambda>entry. snd entry = a) schemaTypes)"

text \<open>
  A string schema that is exported as \<open>Name\<close> and is also a field of two records, one of
  which is a field of the other; and the store a run leaves.
\<close>

definition familyStore :: store where
  "familyStore =
     [\<lparr>n_type = ''string'', n_notes = [], n_presence = None, n_valids = [],
        n_tests = [], n_items = [], n_children = [], n_matches = []\<rparr>,
      \<lparr>n_type = ''object'', n_notes = [], n_presence = None, n_valids = [],
        n_tests = [], n_items = [], n_children = [(''street'', 0)], n_matches = []\<rparr>,
      \<lparr>n_type = ''object'', n_notes = [''person''], n_presence = None, n_valids = [],
        n_tests = [], n_items = [], n_children = [(''address'', 1), (''nick'', 0)],
        n_matches = []\<rparr>]"

definition familyExports :: "(string \<times> nat) list" where
  "familyExports = [(''NameSchema'', 0), (''AddressSchema'', 1), (''PersonSchema'', 2)]"

definition familyAfter :: store where
  "familyAfter =
     [\<lparr>n_type = ''string'', n_notes = [''type:Name''], n_presence = None, n_valids = [],
        n_tests = [], n_items = [], n_children = [], n_matches = []\<rparr>,
      \<lparr>n_type = ''object'', n_notes = [''type:Address''], n_presence = None, n_valids = [],
        n_tests = [], n_items = [], n_children = [(''street'', 0)], n_matches = []\<rparr>,
      \<lparr>n_type = ''object'', n_notes = [''person'', ''type:Person''], n_presence = None,
        n_valids = [], n_tests = [], n_items = [],
        n_children = [(''address'', 1), (''nick'', 0)], n_matches = []\<rparr>]"

text \<open>A store in which every reference of an object points below its address.\<close>

definition wellFormed :: "store \<Rightarrow> bool" where
  "wellFormed st =
     (\<forall>a<length st. (\<forall>c\<in>set (n_items (st ! a)). c < a)
        \<and> (\<forall>kc\<in>set (n_children (st ! a)). snd kc < a)
        \<and> (\<forall>c\<in>set (n_matches (st ! a)). c < a))"

section \<open>The registry: unique names, first writer wins\<close>

lemma find_app:
  "find P (xs @ ys) = (case find P xs of None \<Rightarrow> find P ys | Some x \<Rightarrow> Some x)"
  by (induction xs) simp_all

lemma find_name_None: "(find (\<lambda>typ. d_name typ = n) reg = None) = (n \<notin> d_name ` set reg)"
  by (auto simp: find_None_iff)

lemma addDiscoveredType_present:
  "d_name t \<in> d_name ` set reg \<Longrightarrow> addDiscoveredType t reg = reg"
  by (simp add: addDiscoveredType_def find_name_None)

lemma addDiscoveredType_absent:
  "d_name t \<notin> d_name ` set reg \<Longrightarrow> addDiscoveredType t reg = reg @ [t]"
  by (simp add: addDiscoveredType_def find_name_None)

lemma addDiscoveredType_distinct:
  "distinct (map d_name reg) \<Longrightarrow> distinct (map d_name (addDiscoveredType t reg))"
  by (cases "d_name t \<in> d_name ` set reg")
     (simp_all add: addDiscoveredType_present addDiscoveredType_absent)

lemma addDiscoveredType_find:
  "find (\<lambda>e. d_name e = n) (addDiscoveredType t reg) = find (\<lambda>e. d_name e = n) (reg @ [t])"
proof (cases "d_name t \<in> d_name ` set reg")
  case True
  show ?thesis
  proof (cases "find (\<lambda>e. d_name e = n) reg")
    case None
    then have "n \<notin> d_name ` set reg" by (simp add: find_name_None)
    with True have "d_name t \<noteq> n" by auto
    with None True show ?thesis by (simp add: addDiscoveredType_present find_app)
  next
    case (Some e)
    with True show ?thesis by (simp add: addDiscoveredType_present find_app)
  qed
next
  case False
  then show ?thesis by (simp add: addDiscoveredType_absent)
qed

lemma registerAll_distinct:
  "distinct (map d_name reg) \<Longrightarrow> distinct (map d_name (registerAll ts reg))"
  by (induction ts arbitrary: reg) (simp_all add: addDiscoveredType_distinct)

lemma find_append_cong:
  "find P xs = find P ys \<Longrightarrow> find P (xs @ zs) = find P (ys @ zs)"
  by (simp add: find_app)

lemma registerAll_find:
  "find (\<lambda>e. d_name e = n) (registerAll ts reg) = find (\<lambda>e. d_name e = n) (reg @ ts)"
proof (induction ts arbitrary: reg)
  case Nil
  show ?case by simp
next
  case (Cons t ts)
  have "find (\<lambda>e. d_name e = n) (registerAll (t # ts) reg)
        = find (\<lambda>e. d_name e = n) (addDiscoveredType t reg @ ts)"
    by (simp add: Cons.IH)
  also have "\<dots> = find (\<lambda>e. d_name e = n) ((reg @ [t]) @ ts)"
    by (rule find_append_cong) (rule addDiscoveredType_find)
  finally show ?case by simp
qed

lemma addDiscoveredType_mono: "set reg \<subseteq> set (addDiscoveredType t reg)"
  by (auto simp: addDiscoveredType_def)

lemma addDiscoveredType_prefix: "\<exists>zs. addDiscoveredType t reg = reg @ zs"
  by (auto simp: addDiscoveredType_def)

lemma registerAll_prefix: "\<exists>zs. registerAll ts reg = reg @ zs"
proof (induction ts arbitrary: reg)
  case Nil show ?case by simp
next
  case (Cons t ts)
  obtain zs where 1: "addDiscoveredType t reg = reg @ zs" using addDiscoveredType_prefix by blast
  obtain ws where 2: "registerAll ts (addDiscoveredType t reg) = addDiscoveredType t reg @ ws"
    using Cons.IH by blast
  show ?case using 1 2 by simp
qed

lemma distinct_one_entry:
  "distinct (map d_name reg) \<Longrightarrow> n \<in> d_name ` set reg \<Longrightarrow> length (entriesNamed n reg) = 1"
proof (induction reg)
  case Nil then show ?case by simp
next
  case (Cons e reg)
  show ?case
  proof (cases "d_name e = n")
    case True
    with Cons.prems have "n \<notin> d_name ` set reg" by auto
    then have "filter (\<lambda>e. d_name e = n) reg = []" by (auto simp: filter_empty_conv)
    with True show ?thesis by (simp add: entriesNamed_def)
  next
    case False
    with Cons show ?thesis by (auto simp: entriesNamed_def)
  qed
qed


lemma nameFromNotes_found:
  "find typeCheck notes = Some (''type:'' @ N) \<Longrightarrow> nameFromNotes notes = Inr N"
  by (simp add: nameFromNotes_def stripTypeCheck_def typeCheck_def)

lemma cli_deriveType_named:
  assumes "s_type s \<noteq> ''array''" and "find typeCheck (s_notes s) = Some (''type:'' @ N)"
  shows "cli_deriveType s reg =
    Inr (N, addDiscoveredType \<lparr>d_name = N, d_type = Some (s_type s), d_skip = None\<rparr> reg)"
  using assms
  by (cases s) (simp add: usableNotes_def unwrapNotes_def nameFromNotes_found)

lemma idx_deriveType_named:
  assumes "s_type s \<noteq> ''array''" and "find typeCheck (s_notes s) = Some (''type:'' @ N)"
  shows "idx_deriveType s reg =
    Inr (N, addDiscoveredType \<lparr>d_name = N, d_type = Some (s_type s), d_skip = None\<rparr> reg)"
  using assms
  by (cases s) (simp add: usableNotes_def unwrapNotes_def nameFromNotes_found)

lemma addDiscoveredType_has_name: "d_name t \<in> d_name ` set (addDiscoveredType t reg)"
  by (cases "d_name t \<in> d_name ` set reg")
     (simp_all add: addDiscoveredType_present addDiscoveredType_absent)

lemma registerAll_keeps_name:
  "n \<in> d_name ` set reg \<Longrightarrow> n \<in> d_name ` set (registerAll ts reg)"
proof -
  assume n: "n \<in> d_name ` set reg"
  obtain zs where "registerAll ts reg = reg @ zs" using registerAll_prefix by blast
  with n show ?thesis by auto
qed

lemma two_named_fields:
  assumes d: "distinct (map d_name reg)"
    and a: "s_type a \<noteq> ''array''" "find typeCheck (s_notes a) = Some (''type:'' @ N)"
    and b: "s_type b \<noteq> ''array''" "find typeCheck (s_notes b) = Some (''type:'' @ N)"
    and da: "\<And>r. derive a r = Inr (N, addDiscoveredType \<lparr>d_name = N, d_type = Some (s_type a), d_skip = None\<rparr> r)"
    and db: "\<And>r. derive b r = Inr (N, addDiscoveredType \<lparr>d_name = N, d_type = Some (s_type b), d_skip = None\<rparr> r)"
  shows "\<exists>reg1 reg2. derive a reg = Inr (N, reg1)
           \<and> derive b (registerAll mid reg1) = Inr (N, reg2)
           \<and> length (entriesNamed N (registerAll later reg2)) = 1"
proof -
  let ?ea = "\<lparr>d_name = N, d_type = Some (s_type a), d_skip = None\<rparr>"
  let ?eb = "\<lparr>d_name = N, d_type = Some (s_type b), d_skip = None\<rparr>"
  let ?r1 = "addDiscoveredType ?ea reg"
  let ?r2 = "addDiscoveredType ?eb (registerAll mid ?r1)"
  have d1: "distinct (map d_name ?r1)" using d by (rule addDiscoveredType_distinct)
  have d2: "distinct (map d_name ?r2)"
    by (rule addDiscoveredType_distinct, rule registerAll_distinct, rule d1)
  have d3: "distinct (map d_name (registerAll later ?r2))"
    using d2 by (rule registerAll_distinct)
  have "d_name ?eb \<in> d_name ` set ?r2" by (rule addDiscoveredType_has_name)
  then have "N \<in> d_name ` set ?r2" by simp
  then have "N \<in> d_name ` set (registerAll later ?r2)" by (rule registerAll_keeps_name)
  with d3 have "length (entriesNamed N (registerAll later ?r2)) = 1" by (rule distinct_one_entry)
  then show ?thesis using da db by blast
qed

text \<open>
  Claim C3, as the code has it.  Whatever is registered, in whatever order, the names in
  the registry are pairwise different, and the entry found under a name is the first one
  registered under it; registering under a name that is present, with any base
  expression and skip flag, leaves the registry as it is.  When two fields (of any two
  schemas) that are not arrays both have \<open>type:Money\<close> as the first of their \<open>type:\<close>
  notes, both derive to \<open>Money\<close> in either generator, and however many registrations come
  between and after them the registry holds exactly one \<open>Money\<close> entry.
\<close>

theorem registry_unique_first_writer_wins:
  "distinct (map d_name (registerAll ts []))
   \<and> (\<forall>n. find (\<lambda>e. d_name e = n) (registerAll ts []) = find (\<lambda>e. d_name e = n) ts)
   \<and> (d_name t \<in> d_name ` set reg \<longrightarrow> addDiscoveredType t reg = reg)
   \<and> (distinct (map d_name reg)
        \<and> s_type a \<noteq> ''array'' \<and> find typeCheck (s_notes a) = Some ''type:Money''
        \<and> s_type b \<noteq> ''array'' \<and> find typeCheck (s_notes b) = Some ''type:Money''
      \<longrightarrow> (\<exists>reg1 reg2. cli_deriveType a reg = Inr (''Money'', reg1)
              \<and> cli_deriveType b (registerAll mid reg1) = Inr (''Money'', reg2)
              \<and> length (entriesNamed ''Money'' (registerAll later reg2)) = 1)
        \<and> (\<exists>reg1 reg2. idx_deriveType a reg = Inr (''Money'', reg1)
              \<and> idx_deriveType b (registerAll mid reg1) = Inr (''Money'', reg2)
              \<and> length (entriesNamed ''Money'' (registerAll later reg2)) = 1))"
proof (intro conjI allI impI)
  show "distinct (map d_name (registerAll ts []))"
    by (rule registerAll_distinct) simp
next
  fix n
  show "find (\<lambda>e. d_name e = n) (registerAll ts []) = find (\<lambda>e. d_name e = n) ts"
    by (simp add: registerAll_find)
next
  assume "d_name t \<in> d_name ` set reg"
  then show "addDiscoveredType t reg = reg" by (rule addDiscoveredType_present)
next
  assume h: "distinct (map d_name reg)
        \<and> s_type a \<noteq> ''array'' \<and> find typeCheck (s_notes a) = Some ''type:Money''
        \<and> s_type b \<noteq> ''array'' \<and> find typeCheck (s_notes b) = Some ''type:Money''"
  have m: "''type:Money'' = ''type:'' @ ''Money''" by simp
  from h show "\<exists>reg1 reg2. cli_deriveType a reg = Inr (''Money'', reg1)
              \<and> cli_deriveType b (registerAll mid reg1) = Inr (''Money'', reg2)
              \<and> length (entriesNamed ''Money'' (registerAll later reg2)) = 1"
    unfolding m by (intro two_named_fields cli_deriveType_named) simp_all
next
  assume h: "distinct (map d_name reg)
        \<and> s_type a \<noteq> ''array'' \<and> find typeCheck (s_notes a) = Some ''type:Money''
        \<and> s_type b \<noteq> ''array'' \<and> find typeCheck (s_notes b) = Some ''type:Money''"
  have m: "''type:Money'' = ''type:'' @ ''Money''" by simp
  from h show "\<exists>reg1 reg2. idx_deriveType a reg = Inr (''Money'', reg1)
              \<and> idx_deriveType b (registerAll mid reg1) = Inr (''Money'', reg2)
              \<and> length (entriesNamed ''Money'' (registerAll later reg2)) = 1"
    unfolding m by (intro two_named_fields idx_deriveType_named) simp_all
qed


text \<open>The same at a registry that holds \<open>Money\<close> already, and two annotated fields.\<close>

theorem registry_unique_first_writer_wins_witness:
  "d_name \<lparr>d_name = ''Money'', d_type = Some ''string'', d_skip = Some True\<rparr>
     \<in> d_name ` set [\<lparr>d_name = ''Money'', d_type = Some ''number'', d_skip = None\<rparr>]
   \<and> addDiscoveredType \<lparr>d_name = ''Money'', d_type = Some ''string'', d_skip = Some True\<rparr>
         [\<lparr>d_name = ''Money'', d_type = Some ''number'', d_skip = None\<rparr>]
       = [\<lparr>d_name = ''Money'', d_type = Some ''number'', d_skip = None\<rparr>]
   \<and> distinct (map d_name [\<lparr>d_name = ''Money'', d_type = Some ''number'', d_skip = None\<rparr>])
   \<and> s_type (Schema ''number'' [''type:Money''] None [] [] [] [] []) \<noteq> ''array''
   \<and> find typeCheck (s_notes (Schema ''number'' [''type:Money''] None [] [] [] [] []))
       = Some ''type:Money''
   \<and> s_type (Schema ''string'' [''price'', ''type:Money''] (Some ''required'') [] [] [] [] [])
       \<noteq> ''array''
   \<and> find typeCheck
         (s_notes (Schema ''string'' [''price'', ''type:Money''] (Some ''required'') [] [] [] [] []))
       = Some ''type:Money''
   \<and> (\<exists>reg1 reg2.
         cli_deriveType (Schema ''number'' [''type:Money''] None [] [] [] [] [])
           [\<lparr>d_name = ''Money'', d_type = Some ''number'', d_skip = None\<rparr>] = Inr (''Money'', reg1)
         \<and> cli_deriveType
             (Schema ''string'' [''price'', ''type:Money''] (Some ''required'') [] [] [] [] [])
             (registerAll [\<lparr>d_name = ''Uuid'', d_type = Some ''string'', d_skip = None\<rparr>] reg1)
           = Inr (''Money'', reg2)
         \<and> length (entriesNamed ''Money'' (registerAll [] reg2)) = 1)"
  using registry_unique_first_writer_wins
    [where t = "\<lparr>d_name = ''Money'', d_type = Some ''string'', d_skip = Some True\<rparr>"
       and reg = "[\<lparr>d_name = ''Money'', d_type = Some ''number'', d_skip = None\<rparr>]"
       and a = "Schema ''number'' [''type:Money''] None [] [] [] [] []"
       and b = "Schema ''string'' [''price'', ''type:Money''] (Some ''required'') [] [] [] [] []"
       and mid = "[\<lparr>d_name = ''Uuid'', d_type = Some ''string'', d_skip = None\<rparr>]"
       and later = "[]"]
  by (simp add: typeCheck_def)

text \<open>
  Claim C3 as it is written fails for a field that carries \<open>type:Money\<close> and is an array,
  which is unwrapped before its notes are read and registers nothing, and for a field
  whose notes have another \<open>type:\<close> note before \<open>type:Money\<close>, which takes that name.
\<close>

theorem registry_money_counterexample:
  "cli_deriveType
      (Schema ''array'' [''type:Money''] None [] []
         [Schema ''string'' [] None [] [] [] [] []] [] []) []
     = Inr (''string[]'', [])
   \<and> idx_deriveType
      (Schema ''array'' [''type:Money''] None [] []
         [Schema ''string'' [] None [] [] [] [] []] [] []) []
     = Inr (''string[]'', [])
   \<and> cli_deriveType (Schema ''number'' [''type:Cash'', ''type:Money''] None [] [] [] [] []) []
     = Inr (''Cash'', [\<lparr>d_name = ''Cash'', d_type = Some ''number'', d_skip = None\<rparr>])
   \<and> idx_deriveType (Schema ''number'' [''type:Cash'', ''type:Money''] None [] [] [] [] []) []
     = Inr (''Cash'', [\<lparr>d_name = ''Cash'', d_type = Some ''number'', d_skip = None\<rparr>])"
  by (simp add: usableNotes_def uuidCheck_def alternativesCheck_def joiToTypescript_def
        unwrapNotes_def nameFromNotes_def typeCheck_def stripTypeCheck_def
        addDiscoveredType_def)

section \<open>Arrays\<close>

lemma cli_mapDeriveType_Cons_Inr:
  assumes "cli_mapDeriveType (x # xs) reg = Inr (ts, reg')"
  obtains t tys r where "cli_deriveType x reg = Inr (t, r)"
    and "cli_mapDeriveType xs r = Inr (tys, reg')" and "ts = t # tys"
  using assms by (auto split: sum.splits prod.splits)

lemma idx_mapDeriveType_Cons_Inr:
  assumes "idx_mapDeriveType (x # xs) reg = Inr (ts, reg')"
  obtains t tys r where "idx_deriveType x reg = Inr (t, r)"
    and "idx_mapDeriveType xs r = Inr (tys, reg')" and "ts = t # tys"
  using assms by (auto split: sum.splits prod.splits)

lemma derivedInOrder_Nil: "derivedInOrder derive [] reg [] reg"
  unfolding derivedInOrder_def by (auto intro: exI [of _ "[reg]"])

lemma derivedInOrder_Cons:
  assumes h: "derive x reg = Inr (t, r)" and t: "derivedInOrder derive xs r tys reg'"
  shows "derivedInOrder derive (x # xs) reg (t # tys) reg'"
proof -
  from t obtain rs where len: "length tys = length xs" "length rs = Suc (length xs)"
    and ends: "rs ! 0 = r" "rs ! length xs = reg'"
    and steps: "\<forall>i<length xs. derive (xs ! i) (rs ! i) = Inr (tys ! i, rs ! Suc i)"
    unfolding derivedInOrder_def by blast
  have "\<forall>i<length (x # xs).
          derive ((x # xs) ! i) ((reg # rs) ! i) = Inr ((t # tys) ! i, (reg # rs) ! Suc i)"
  proof (intro allI impI)
    fix i assume "i < length (x # xs)"
    then show "derive ((x # xs) ! i) ((reg # rs) ! i) = Inr ((t # tys) ! i, (reg # rs) ! Suc i)"
      using h ends steps by (cases i) simp_all
  qed
  moreover have "length (reg # rs) = Suc (length (x # xs))" using len by simp
  moreover have "(reg # rs) ! 0 = reg" by simp
  moreover have "(reg # rs) ! length (x # xs) = reg'" using ends by simp
  ultimately show ?thesis
    unfolding derivedInOrder_def using len by (intro conjI exI [of _ "reg # rs"]) simp_all
qed

lemma cli_mapDeriveType_in_order:
  "cli_mapDeriveType items reg = Inr (ts, reg') \<Longrightarrow> derivedInOrder cli_deriveType items reg ts reg'"
proof (induction items arbitrary: reg ts)
  case Nil
  then show ?case by (simp add: derivedInOrder_Nil)
next
  case (Cons x xs)
  from Cons.prems obtain t tys r where 1: "cli_deriveType x reg = Inr (t, r)"
    and 2: "cli_mapDeriveType xs r = Inr (tys, reg')" and 3: "ts = t # tys"
    by (rule cli_mapDeriveType_Cons_Inr)
  from 2 have "derivedInOrder cli_deriveType xs r tys reg'" by (rule Cons.IH)
  with 1 3 show ?case by (simp add: derivedInOrder_Cons)
qed

lemma idx_mapDeriveType_in_order:
  "idx_mapDeriveType items reg = Inr (ts, reg') \<Longrightarrow> derivedInOrder idx_deriveType items reg ts reg'"
proof (induction items arbitrary: reg ts)
  case Nil
  then show ?case by (simp add: derivedInOrder_Nil)
next
  case (Cons x xs)
  from Cons.prems obtain t tys r where 1: "idx_deriveType x reg = Inr (t, r)"
    and 2: "idx_mapDeriveType xs r = Inr (tys, reg')" and 3: "ts = t # tys"
    by (rule idx_mapDeriveType_Cons_Inr)
  from 2 have "derivedInOrder idx_deriveType xs r tys reg'" by (rule Cons.IH)
  with 1 3 show ?case by (simp add: derivedInOrder_Cons)
qed

lemma cli_deriveType_array: "s_type s = ''array'' \<Longrightarrow> cli_deriveType s reg = cli_unwrapArray (s_items s) reg"
  by (cases s) simp

lemma idx_deriveType_array: "s_type s = ''array'' \<Longrightarrow> idx_deriveType s reg = idx_unwrapArray (s_items s) reg"
  by (cases s) simp

text \<open>
  Claim C1.  For an array node, in either generator: when the permitted-items sequence
  has exactly one item the result is the derivation of that item followed by \<open>[]\<close>; when
  it has two or more the result is \<open>Array<\<close>, the derivations of all the items joined by
  \<open> | \<close>, and \<open>>\<close>.  The derivations are those of the items in sequence order, one per
  item, the first included, each started in the registry the one before it left; none is
  dropped as a duplicate.  A derivation that throws makes the whole derivation throw.
\<close>

theorem array_derivation:
  assumes "s_type s = ''array''"
  shows "(s_items s = [first] \<longrightarrow>
            cli_deriveType s reg =
              (case cli_deriveType first reg of
                 Inl e \<Rightarrow> Inl e | Inr (t, reg') \<Rightarrow> Inr (t @ ''[]'', reg'))
          \<and> idx_deriveType s reg =
              (case idx_deriveType first reg of
                 Inl e \<Rightarrow> Inl e | Inr (t, reg') \<Rightarrow> Inr (t @ ''[]'', reg')))
       \<and> (2 \<le> length (s_items s) \<longrightarrow>
            cli_deriveType s reg =
              (case cli_mapDeriveType (s_items s) reg of
                 Inl e \<Rightarrow> Inl e
               | Inr (ts, reg') \<Rightarrow> Inr (''Array<'' @ js_join '' | '' ts @ ''>'', reg'))
          \<and> idx_deriveType s reg =
              (case idx_mapDeriveType (s_items s) reg of
                 Inl e \<Rightarrow> Inl e
               | Inr (ts, reg') \<Rightarrow> Inr (''Array<'' @ js_join '' | '' ts @ ''>'', reg')))
       \<and> (cli_mapDeriveType (s_items s) reg = Inr (ts, reg') \<longrightarrow>
            derivedInOrder cli_deriveType (s_items s) reg ts reg')
       \<and> (idx_mapDeriveType (s_items s) reg = Inr (ts, reg') \<longrightarrow>
            derivedInOrder idx_deriveType (s_items s) reg ts reg')"
proof (intro conjI impI)
  assume "s_items s = [first]"
  with assms show "cli_deriveType s reg =
              (case cli_deriveType first reg of
                 Inl e \<Rightarrow> Inl e | Inr (t, reg') \<Rightarrow> Inr (t @ ''[]'', reg'))"
    by (simp add: cli_deriveType_array)
next
  assume "s_items s = [first]"
  with assms show "idx_deriveType s reg =
              (case idx_deriveType first reg of
                 Inl e \<Rightarrow> Inl e | Inr (t, reg') \<Rightarrow> Inr (t @ ''[]'', reg'))"
    by (simp add: idx_deriveType_array)
next
  assume "2 \<le> length (s_items s)"
  then obtain a b rest where "s_items s = a # b # rest"
    by (cases "s_items s"; cases "tl (s_items s)") auto
  with assms show "cli_deriveType s reg =
              (case cli_mapDeriveType (s_items s) reg of
                 Inl e \<Rightarrow> Inl e
               | Inr (ts, reg') \<Rightarrow> Inr (''Array<'' @ js_join '' | '' ts @ ''>'', reg'))"
    by (simp add: cli_deriveType_array)
next
  assume "2 \<le> length (s_items s)"
  then obtain a b rest where "s_items s = a # b # rest"
    by (cases "s_items s"; cases "tl (s_items s)") auto
  with assms show "idx_deriveType s reg =
              (case idx_mapDeriveType (s_items s) reg of
                 Inl e \<Rightarrow> Inl e
               | Inr (ts, reg') \<Rightarrow> Inr (''Array<'' @ js_join '' | '' ts @ ''>'', reg'))"
    by (simp add: idx_deriveType_array)
next
  assume "cli_mapDeriveType (s_items s) reg = Inr (ts, reg')"
  then show "derivedInOrder cli_deriveType (s_items s) reg ts reg'"
    by (rule cli_mapDeriveType_in_order)
next
  assume "idx_mapDeriveType (s_items s) reg = Inr (ts, reg')"
  then show "derivedInOrder idx_deriveType (s_items s) reg ts reg'"
    by (rule idx_mapDeriveType_in_order)
qed


text \<open>An array of strings, and an array of a string, a date and a string again.\<close>

theorem array_derivation_witness:
  "(s_type (Schema ''array'' [] None [] [] [Schema ''string'' [] None [] [] [] [] []] [] [])
      = ''array''
    \<and> s_items (Schema ''array'' [] None [] [] [Schema ''string'' [] None [] [] [] [] []] [] [])
      = [Schema ''string'' [] None [] [] [] [] []]
    \<and> cli_deriveType
        (Schema ''array'' [] None [] [] [Schema ''string'' [] None [] [] [] [] []] [] []) []
      = Inr (''string[]'', [])
    \<and> idx_deriveType
        (Schema ''array'' [] None [] [] [Schema ''string'' [] None [] [] [] [] []] [] []) []
      = Inr (''string[]'', []))
   \<and> (2 \<le> length (s_items (Schema ''array'' [] None [] []
          [Schema ''string'' [] None [] [] [] [] [], Schema ''date'' [] None [] [] [] [] [],
           Schema ''string'' [] None [] [] [] [] []] [] []))
    \<and> cli_deriveType (Schema ''array'' [] None [] []
          [Schema ''string'' [] None [] [] [] [] [], Schema ''date'' [] None [] [] [] [] [],
           Schema ''string'' [] None [] [] [] [] []] [] []) []
      = Inr (''Array<string | Date | string>'', [])
    \<and> idx_deriveType (Schema ''array'' [] None [] []
          [Schema ''string'' [] None [] [] [] [] [], Schema ''date'' [] None [] [] [] [] [],
           Schema ''string'' [] None [] [] [] [] []] [] []) []
      = Inr (''Array<string | Date | string>'', [])
    \<and> derivedInOrder cli_deriveType
          [Schema ''string'' [] None [] [] [] [] [], Schema ''date'' [] None [] [] [] [] [],
           Schema ''string'' [] None [] [] [] [] []] [] [''string'', ''Date'', ''string''] []
    \<and> derivedInOrder idx_deriveType
          [Schema ''string'' [] None [] [] [] [] [], Schema ''date'' [] None [] [] [] [] [],
           Schema ''string'' [] None [] [] [] [] []] [] [''string'', ''Date'', ''string''] [])"
  using array_derivation
    [where s = "Schema ''array'' [] None [] [] [Schema ''string'' [] None [] [] [] [] []] [] []"
       and first = "Schema ''string'' [] None [] [] [] [] []" and reg = "[]"]
    array_derivation
    [where s = "Schema ''array'' [] None [] []
          [Schema ''string'' [] None [] [] [] [] [], Schema ''date'' [] None [] [] [] [] [],
           Schema ''string'' [] None [] [] [] [] []] [] []"
       and reg = "[]" and ts = "[''string'', ''Date'', ''string'']" and reg' = "[]"]
  by (simp add: usableNotes_def uuidCheck_def alternativesCheck_def joiToTypescript_def)

section \<open>Dispatch order\<close>

lemma usableNotes_iff: "usableNotes s = (\<exists>n\<in>set (s_notes s). take 5 n = ''type:'')"
  by (auto simp: usableNotes_def typeCheck_def find_None_iff)

lemma uuidCheck_iff: "uuidCheck s = (''guid'' \<in> set (s_tests s))"
  by (auto simp: uuidCheck_def find_None_iff)

text \<open>
  Claim C2.  The deriver takes the first case that matches, in the order: array kind;
  a note matching \<open>type:<Name>\<close>; a \<open>guid\<close> rule in the rule list (the rule of a string
  schema; the rule list is all that is inspected); in cli.ts only, the alternatives kind;
  and otherwise the kind itself, \<open>date\<close> becoming \<open>Date\<close>.  A node that satisfies
  several of the conditions gets the result of the earliest.
\<close>

theorem dispatch_order:
  "cli_deriveType s reg =
          (if s_type s = ''array'' then cli_unwrapArray (s_items s) reg
           else if \<exists>n\<in>set (s_notes s). take 5 n = ''type:''
             then unwrapNotes (s_type s) (s_notes s) reg
           else if ''guid'' \<in> set (s_tests s)
             then Inr (''Uuid'',
                    addDiscoveredType
                      \<lparr>d_name = ''Uuid'', d_type = Some ''string'', d_skip = None\<rparr> reg)
           else if s_type s = ''alternatives''
             then (case cli_mapDeriveType (s_matches s) reg of
                     Inl e \<Rightarrow> Inl e
                   | Inr (types, reg') \<Rightarrow> Inr (js_join '' | '' types, reg'))
           else Inr (if s_type s = ''date'' then ''Date'' else s_type s, reg))
       \<and> idx_deriveType s reg =
          (if s_type s = ''array'' then idx_unwrapArray (s_items s) reg
           else if \<exists>n\<in>set (s_notes s). take 5 n = ''type:''
             then unwrapNotes (s_type s) (s_notes s) reg
           else if ''guid'' \<in> set (s_tests s)
             then Inr (''Uuid'',
                    addDiscoveredType
                      \<lparr>d_name = ''Uuid'', d_type = Some ''string'', d_skip = None\<rparr> reg)
           else Inr (if s_type s = ''date'' then ''Date'' else s_type s, reg))"
proof (cases s)
  case (Schema ty nts pres valids tests items children matches)
  have u: "usableNotes (Schema ty nts pres valids tests items children matches)
             = (\<exists>n\<in>set nts. take 5 n = ''type:'')"
    by (simp add: usableNotes_iff)
  have g: "uuidCheck (Schema ty nts pres valids tests items children matches)
             = (''guid'' \<in> set tests)"
    by (simp add: uuidCheck_iff)
  show ?thesis
    unfolding Schema cli_deriveType.simps idx_deriveType.simps u g
    by (simp add: alternativesCheck_def joiToTypescript_def)
qed

text \<open>
  A string schema with a \<open>type:Id\<close> note and a \<open>guid\<close> rule derives to \<open>Id\<close>; an
  array with the same note and rule is unwrapped as an array; a string schema with the
  rule alone derives to \<open>Uuid\<close>; an alternatives schema is a union in cli.ts and its
  kind in index.ts; a date schema derives to \<open>Date\<close>.
\<close>

theorem dispatch_order_witness:
  "(\<exists>n\<in>set (s_notes (Schema ''string'' [''type:Id''] None [] [''guid''] [] [] [])).
       take 5 n = ''type:'')
   \<and> ''guid'' \<in> set (s_tests (Schema ''string'' [''type:Id''] None [] [''guid''] [] [] []))
   \<and> cli_deriveType (Schema ''string'' [''type:Id''] None [] [''guid''] [] [] []) []
       = Inr (''Id'', [\<lparr>d_name = ''Id'', d_type = Some ''string'', d_skip = None\<rparr>])
   \<and> idx_deriveType (Schema ''string'' [''type:Id''] None [] [''guid''] [] [] []) []
       = Inr (''Id'', [\<lparr>d_name = ''Id'', d_type = Some ''string'', d_skip = None\<rparr>])
   \<and> cli_deriveType
        (Schema ''array'' [''type:Id''] None [] [''guid'']
           [Schema ''number'' [] None [] [] [] [] []] [] []) []
       = Inr (''number[]'', [])
   \<and> cli_deriveType (Schema ''string'' [] None [] [''guid''] [] [] []) []
       = Inr (''Uuid'', [\<lparr>d_name = ''Uuid'', d_type = Some ''string'', d_skip = None\<rparr>])
   \<and> cli_deriveType
        (Schema ''alternatives'' [] None [] [] [] []
           [Schema ''string'' [] None [] [] [] [] [], Schema ''date'' [] None [] [] [] [] []]) []
       = Inr (''string | Date'', [])
   \<and> idx_deriveType
        (Schema ''alternatives'' [] None [] [] [] []
           [Schema ''string'' [] None [] [] [] [] [], Schema ''date'' [] None [] [] [] [] []]) []
       = Inr (''alternatives'', [])
   \<and> idx_deriveType (Schema ''date'' [] None [] [] [] [] []) [] = Inr (''Date'', [])"
  using dispatch_order [of "Schema ''string'' [''type:Id''] None [] [''guid''] [] [] []" "[]"]
    dispatch_order [of "Schema ''array'' [''type:Id''] None [] [''guid'']
           [Schema ''number'' [] None [] [] [] [] []] [] []" "[]"]
    dispatch_order [of "Schema ''string'' [] None [] [''guid''] [] [] []" "[]"]
    dispatch_order [of "Schema ''alternatives'' [] None [] [] [] []
           [Schema ''string'' [] None [] [] [] [] [], Schema ''date'' [] None [] [] [] [] []]" "[]"]
    dispatch_order [of "Schema ''date'' [] None [] [] [] [] []" "[]"]
  by (simp add: unwrapNotes_def nameFromNotes_def typeCheck_def stripTypeCheck_def
        addDiscoveredType_def usableNotes_def uuidCheck_def alternativesCheck_def
        joiToTypescript_def)

section \<open>The union/alias resolver: results\<close>

lemma removeAll_filter: "removeAll c (filter P cs) = filter (\<lambda>d. P d \<and> d \<noteq> c) cs"
  by (induction cs) auto

lemma collectOut_firstSeen:
  "collectOut b opts out = out @ firstSeen (filter (\<lambda>c. c \<notin> set out) (map (candidate b) opts))"
proof (induction opts arbitrary: out)
  case Nil
  show ?case by simp
next
  case (Cons opt opts)
  show ?case
  proof (cases "candidate b opt \<in> set out")
    case True
    then show ?thesis by (simp add: Cons.IH)
  next
    case False
    have "(\<lambda>c. c \<notin> set (out @ [candidate b opt])) = (\<lambda>c. c \<notin> set out \<and> c \<noteq> candidate b opt)"
      by auto
    with False show ?thesis by (simp add: Cons.IH removeAll_filter)
  qed
qed

lemma collectOut_empty: "collectOut b opts [] = firstSeen (map (candidate b) opts)"
  by (simp add: collectOut_firstSeen)

lemma removeAll_map_inj:
  "inj f \<Longrightarrow> removeAll (f x) (map f xs) = map f (removeAll x xs)"
  by (induction xs) (auto dest: injD)

lemma firstSeen_map_inj: "inj f \<Longrightarrow> firstSeen (map f xs) = map f (firstSeen xs)"
proof (induction xs rule: firstSeen.induct)
  case 1
  show ?case by simp
next
  case (2 x xs)
  then show ?case by (simp add: removeAll_map_inj)
qed

lemma set_firstSeen: "set (firstSeen xs) = set xs"
  by (induction xs rule: firstSeen.induct) auto

lemma firstSeen_distinct: "distinct (firstSeen xs)"
  by (induction xs rule: firstSeen.induct) (auto simp: set_firstSeen)

lemma candidate_string: "map (candidate ''string'') opts = map JStr (map quoted opts)"
  by (simp add: candidate_def quoted_def)

lemma candidate_other: "b \<noteq> ''string'' \<Longrightarrow> map (candidate b) opts = opts"
  by (induction opts) (simp_all add: candidate_def)

lemma out_string:
  "collectOut ''string'' opts [] = map JStr (firstSeen (map quoted opts))"
  by (simp add: collectOut_empty candidate_string firstSeen_map_inj inj_def del: map_map)

lemma joinElem_JStr: "map joinElem (map JStr ts) = ts"
  by (induction ts) simp_all

text \<open>
  Claim C4, as the code has it.  For a top-level node given to the resolver: with no
  allowed values the result is the base kind, \<open>date\<close> becoming \<open>Date\<close>.  With allowed
  values and base kind \<open>string\<close>, every value is quoted, the quoted texts are
  deduplicated keeping the first occurrence of each in order, and index.ts joins them
  with \<open> | \<close> while cli.ts writes each on a line of its own after a newline and \<open>  | \<close>.
  With allowed values and another base kind the values stay bare and are deduplicated
  as values (by strict equality), not by their text, before they are rendered.  The
  allowed values a, a, b of the string schema \<open>Status\<close> give
  \<open>export type Status = "a" | "b";\<close> in index.ts, and in cli.ts \<open>export type Status =\<close>
  followed by the two lines \<open>  | "a"\<close> and \<open>  | "b";\<close>.
\<close>

theorem alias_resolution:
  "(s_valids node = [] \<longrightarrow>
      idx_resolveTypeDefinition (Node node)
        = Inr (if s_type node = ''date'' then ''Date'' else s_type node)
    \<and> cli_resolveTypeDefinition (Node node)
        = Inr ('' '' @ (if s_type node = ''date'' then ''Date'' else s_type node)))
   \<and> (s_valids node \<noteq> [] \<and> s_type node = ''string'' \<longrightarrow>
      idx_resolveTypeDefinition (Node node)
        = Inr (js_join '' | '' (firstSeen (map quoted (s_valids node))))
    \<and> cli_resolveTypeDefinition (Node node)
        = Inr (concat (map (\<lambda>t. newline @ ''  | '' @ t) (firstSeen (map quoted (s_valids node))))))
   \<and> (s_valids node \<noteq> [] \<and> s_type node \<noteq> ''string'' \<longrightarrow>
      idx_resolveTypeDefinition (Node node)
        = Inr (js_join '' | '' (map joinElem (firstSeen (s_valids node))))
    \<and> cli_resolveTypeDefinition (Node node)
        = Inr (concat (map (\<lambda>v. newline @ ''  | '' @ jsToString v) (firstSeen (s_valids node)))))
   \<and> idx_writeTypeAlias ''Status''
        (Node (Schema ''string'' [] None [JStr ''a'', JStr ''a'', JStr ''b''] [] [] [] []))
      = Inr (''export type Status = '' @ dquote @ ''a'' @ dquote @ '' | ''
               @ dquote @ ''b'' @ dquote @ '';'')
   \<and> cli_writeTypeAlias ''Status''
        (Node (Schema ''string'' [] None [JStr ''a'', JStr ''a'', JStr ''b''] [] [] [] []))
      = Inr (''export type Status ='' @ newline @ ''  | '' @ dquote @ ''a'' @ dquote
               @ newline @ ''  | '' @ dquote @ ''b'' @ dquote @ '';'')"
proof (intro conjI impI)
  assume "s_valids node = []"
  then show "idx_resolveTypeDefinition (Node node)
        = Inr (if s_type node = ''date'' then ''Date'' else s_type node)"
    by (simp add: idx_resolveTypeDefinition_def getUnion_def joiToTypescript_def)
next
  assume "s_valids node = []"
  then show "cli_resolveTypeDefinition (Node node)
        = Inr ('' '' @ (if s_type node = ''date'' then ''Date'' else s_type node))"
    by (simp add: cli_resolveTypeDefinition_def getUnion_def joiToTypescript_def)
next
  assume "s_valids node \<noteq> [] \<and> s_type node = ''string''"
  then show "idx_resolveTypeDefinition (Node node)
        = Inr (js_join '' | '' (firstSeen (map quoted (s_valids node))))"
    by (simp add: idx_resolveTypeDefinition_def getUnion_def out_string joinElem_JStr
          del: map_map)
next
  assume "s_valids node \<noteq> [] \<and> s_type node = ''string''"
  then show "cli_resolveTypeDefinition (Node node)
        = Inr (concat (map (\<lambda>t. newline @ ''  | '' @ t) (firstSeen (map quoted (s_valids node)))))"
    by (simp add: cli_resolveTypeDefinition_def getUnion_def out_string o_def)
next
  assume "s_valids node \<noteq> [] \<and> s_type node \<noteq> ''string''"
  then show "idx_resolveTypeDefinition (Node node)
        = Inr (js_join '' | '' (map joinElem (firstSeen (s_valids node))))"
    by (simp add: idx_resolveTypeDefinition_def getUnion_def collectOut_empty candidate_other)
next
  assume "s_valids node \<noteq> [] \<and> s_type node \<noteq> ''string''"
  then show "cli_resolveTypeDefinition (Node node)
        = Inr (concat (map (\<lambda>v. newline @ ''  | '' @ jsToString v) (firstSeen (s_valids node))))"
    by (simp add: cli_resolveTypeDefinition_def getUnion_def collectOut_empty candidate_other)
next
  show "idx_writeTypeAlias ''Status''
        (Node (Schema ''string'' [] None [JStr ''a'', JStr ''a'', JStr ''b''] [] [] [] []))
      = Inr (''export type Status = '' @ dquote @ ''a'' @ dquote @ '' | ''
               @ dquote @ ''b'' @ dquote @ '';'')"
    by (simp add: idx_writeTypeAlias_def idx_resolveTypeDefinition_def getUnion_def
          candidate_def)
next
  show "cli_writeTypeAlias ''Status''
        (Node (Schema ''string'' [] None [JStr ''a'', JStr ''a'', JStr ''b''] [] [] [] []))
      = Inr (''export type Status ='' @ newline @ ''  | '' @ dquote @ ''a'' @ dquote
               @ newline @ ''  | '' @ dquote @ ''b'' @ dquote @ '';'')"
    by (simp add: cli_writeTypeAlias_def cli_resolveTypeDefinition_def getUnion_def
          candidate_def)
qed


text \<open>A string schema with a repeated value, a date schema, an array schema with values.\<close>

theorem alias_resolution_witness:
  "s_valids (Schema ''string'' [] None [JStr ''a'', JStr ''a'', JStr ''b''] [] [] [] []) \<noteq> []
   \<and> s_type (Schema ''string'' [] None [JStr ''a'', JStr ''a'', JStr ''b''] [] [] [] [])
       = ''string''
   \<and> idx_resolveTypeDefinition
        (Node (Schema ''string'' [] None [JStr ''a'', JStr ''a'', JStr ''b''] [] [] [] []))
       = Inr (dquote @ ''a'' @ dquote @ '' | '' @ dquote @ ''b'' @ dquote)
   \<and> s_valids (Schema ''date'' [] None [] [] [] [] []) = []
   \<and> idx_resolveTypeDefinition (Node (Schema ''date'' [] None [] [] [] [] [])) = Inr ''Date''
   \<and> s_valids (Schema ''array'' [] None [JBool True, JBool True, JNull] [] [] [] []) \<noteq> []
   \<and> s_type (Schema ''array'' [] None [JBool True, JBool True, JNull] [] [] [] []) \<noteq> ''string''
   \<and> cli_resolveTypeDefinition
        (Node (Schema ''array'' [] None [JBool True, JBool True, JNull] [] [] [] []))
       = Inr (newline @ ''  | true'' @ newline @ ''  | null'')"
  using alias_resolution
          [of "Schema ''string'' [] None [JStr ''a'', JStr ''a'', JStr ''b''] [] [] [] []"]
        alias_resolution [of "Schema ''date'' [] None [] [] [] [] []"]
        alias_resolution
          [of "Schema ''array'' [] None [JBool True, JBool True, JNull] [] [] [] []"]
  by (simp add: quoted_def)

text \<open>
  Claim C4 as it is written fails in cli.ts, whose alias for \<open>Status\<close> is not the one
  line; and for a base kind other than \<open>string\<close> two different values with the same
  text both stay (the boolean \<open>true\<close> and the string \<open>true\<close>).
\<close>

theorem alias_resolution_counterexample:
  "cli_writeTypeAlias ''Status''
      (Node (Schema ''string'' [] None [JStr ''a'', JStr ''a'', JStr ''b''] [] [] [] []))
     \<noteq> Inr (''export type Status = '' @ dquote @ ''a'' @ dquote @ '' | ''
               @ dquote @ ''b'' @ dquote @ '';'')
   \<and> idx_resolveTypeDefinition
        (Node (Schema ''array'' [] None [JBool True, JStr ''true''] [] [] [] []))
     = Inr ''true | true''"
  by (simp add: cli_writeTypeAlias_def cli_resolveTypeDefinition_def
        idx_resolveTypeDefinition_def getUnion_def candidate_def newline_def dquote_def)

section \<open>Names from notes\<close>

lemma find_typeCheck_Some:
  "find typeCheck notes = Some n \<Longrightarrow> n = ''type:'' @ drop 5 n"
proof -
  assume "find typeCheck notes = Some n"
  then have "typeCheck n" by (auto simp: find_Some_iff)
  then have "take 5 n = ''type:''" by (simp add: typeCheck_def)
  then have "take 5 n @ drop 5 n = ''type:'' @ drop 5 n" by simp
  then show ?thesis by simp
qed

text \<open>
  Claim C7, as the code has it.  When no note of the list matches \<open>type:\<close>,
  \<open>nameFromNotes\<close> throws: an \<open>Error\<close> with the fixed message
  \<open>Must provide type information through notes.\<close>  When some note matches, it returns
  the first matching note with the prefix \<open>type:\<close> taken off.
\<close>

theorem nameFromNotes_result:
  "((\<forall>n\<in>set notes. \<not> typeCheck n) \<longrightarrow> nameFromNotes notes = Inl (Error ''Must provide type information through notes.''))
   \<and> ((\<exists>n\<in>set notes. typeCheck n) \<longrightarrow>
        (\<exists>n. find typeCheck notes = Some n \<and> n = ''type:'' @ drop 5 n
             \<and> nameFromNotes notes = Inr (drop 5 n)))"
proof (intro conjI impI)
  assume "\<forall>n\<in>set notes. \<not> typeCheck n"
  then have "find typeCheck notes = None" by (simp add: find_None_iff)
  then show "nameFromNotes notes = Inl (Error ''Must provide type information through notes.'')"
    by (simp add: nameFromNotes_def missingNotes_def)
next
  assume "\<exists>n\<in>set notes. typeCheck n"
  then have "find typeCheck notes \<noteq> None" by (auto simp: find_None_iff)
  then obtain n where f: "find typeCheck notes = Some n" by blast
  then have p: "n = ''type:'' @ drop 5 n" by (rule find_typeCheck_Some)
  then have ne: "n \<noteq> []" by auto
  have tc: "typeCheck n" using f by (auto simp: find_Some_iff)
  have "nameFromNotes notes = Inr (drop 5 n)"
    using f ne tc by (simp add: nameFromNotes_def stripTypeCheck_def)
  with f p show "\<exists>n. find typeCheck notes = Some n \<and> n = ''type:'' @ drop 5 n
             \<and> nameFromNotes notes = Inr (drop 5 n)" by blast
qed

text \<open>A list without a type note, and a list with two of them.\<close>

theorem nameFromNotes_result_witness:
  "\<not> typeCheck ''min:3'' \<and> \<not> typeCheck ''label''
   \<and> nameFromNotes [''min:3'', ''label''] = Inl (Error ''Must provide type information through notes.'')
   \<and> (\<exists>n\<in>set [''label'', ''type:Money'', ''type:Cash'']. typeCheck n)
   \<and> (\<exists>n. find typeCheck [''label'', ''type:Money'', ''type:Cash''] = Some n
          \<and> n = ''type:'' @ drop 5 n
          \<and> nameFromNotes [''label'', ''type:Money'', ''type:Cash''] = Inr (drop 5 n))"
  using nameFromNotes_result [of "[''min:3'', ''label'']"]
    nameFromNotes_result [of "[''label'', ''type:Money'', ''type:Cash'']"]
  by (simp add: typeCheck_def)

text \<open>
  Claim C7 as it is written fails: the error is the generic \<open>Error\<close> with one fixed
  message, the same for the notes of two different nodes, so it names neither a
  \<open>MissingTypeAnnotation\<close> kind nor the node.
\<close>

theorem nameFromNotes_error_counterexample:
  "nameFromNotes [''min:3''] = Inl (Error ''Must provide type information through notes.'')
   \<and> nameFromNotes [''max:9'', ''label'']
       = Inl (Error ''Must provide type information through notes.'')"
  by (simp add: nameFromNotes_def typeCheck_def missingNotes_def)

section \<open>The coercion function\<close>

lemma length_freezeAt [simp]: "length (freezeAt a h) = length h"
  by (simp add: freezeAt_def)

lemma props_freezeAt [simp]: "b < length h \<Longrightarrow> o_props (freezeAt a h ! b) = o_props (h ! b)"
  by (cases "a = b") (simp_all add: freezeAt_def)

lemma refs_freezeAt [simp]: "b < length h \<Longrightarrow> refs (freezeAt a h ! b) = refs (h ! b)"
  by (simp add: refs_def)

lemma frozen_freezeAt:
  "b < length h \<Longrightarrow> o_frozen (freezeAt a h ! b) = (b = a \<or> o_frozen (h ! b))"
  by (cases "a = b") (auto simp: freezeAt_def)

lemma length_freezeAll [simp]: "length (freezeAll h todo) = length h"
  by (induction h todo rule: freezeAll.induct) simp_all

lemma props_freezeAll:
  "b < length h \<Longrightarrow> o_props (freezeAll h todo ! b) = o_props (h ! b)"
  by (induction h todo rule: freezeAll.induct) simp_all

lemma frozen_freezeAll:
  "b < length h \<Longrightarrow> o_frozen (h ! b) \<Longrightarrow> o_frozen (freezeAll h todo ! b)"
  by (induction h todo rule: freezeAll.induct) (simp_all add: frozen_freezeAt)

lemma pending_step:
  assumes p: "pending h (a # todo)" and a: "a < length h" "\<not> o_frozen (h ! a)"
  shows "pending (freezeAt a h) (refs (h ! a) @ todo)"
  unfolding pending_def
proof (intro allI impI ballI)
  fix b c
  assume b: "b < length (freezeAt a h)" "o_frozen (freezeAt a h ! b)"
    and c: "c \<in> set (refs (freezeAt a h ! b))" "c < length (freezeAt a h)"
  from b have bl: "b < length h" by simp
  from c bl have cr: "c \<in> set (refs (h ! b))" and cl: "c < length h" by simp_all
  show "o_frozen (freezeAt a h ! c) \<or> c \<in> set (refs (h ! a) @ todo)"
  proof (cases "b = a")
    case True
    with cr show ?thesis by simp
  next
    case False
    with b bl have "o_frozen (h ! b)" by (simp add: frozen_freezeAt)
    with p bl cr cl have "o_frozen (h ! c) \<or> c \<in> set (a # todo)"
      unfolding pending_def by blast
    then show ?thesis using cl by (auto simp: frozen_freezeAt)
  qed
qed

lemma pending_skip:
  assumes p: "pending h (a # todo)" and a: "\<not> (a < length h \<and> \<not> o_frozen (h ! a))"
  shows "pending h todo"
  unfolding pending_def
proof (intro allI impI ballI)
  fix b c
  assume "b < length h" "o_frozen (h ! b)" "c \<in> set (refs (h ! b))" "c < length h"
  with p have "o_frozen (h ! c) \<or> c \<in> set (a # todo)" unfolding pending_def by blast
  with a \<open>c < length h\<close> show "o_frozen (h ! c) \<or> c \<in> set todo" by auto
qed

lemma pending_closed: "pending h todo \<Longrightarrow> closed (freezeAll h todo)"
proof (induction h todo rule: freezeAll.induct)
  case (1 h)
  then show ?case by (simp add: pending_def closed_def)
next
  case (2 h a todo)
  show ?case
  proof (cases "a < length h \<and> \<not> o_frozen (h ! a)")
    case True
    then have "pending (freezeAt a h) (refs (h ! a) @ todo)"
      using "2.prems" by (intro pending_step) simp_all
    with True show ?thesis by (simp add: "2.IH"(1))
  next
    case False
    with "2.prems" have "pending h todo" by (rule pending_skip)
    with False show ?thesis using "2.IH"(2) by auto
  qed
qed

lemma closed_pending:
  assumes "closed h" "a < length h"
  shows "pending (freezeAt a h) (refs (h ! a))"
  unfolding pending_def
proof (intro allI impI ballI)
  fix b c
  assume b: "b < length (freezeAt a h)" "o_frozen (freezeAt a h ! b)"
    and c: "c \<in> set (refs (freezeAt a h ! b))" "c < length (freezeAt a h)"
  from b have bl: "b < length h" by simp
  from c bl have cr: "c \<in> set (refs (h ! b))" and cl: "c < length h" by simp_all
  show "o_frozen (freezeAt a h ! c) \<or> c \<in> set (refs (h ! a))"
  proof (cases "b = a")
    case True
    with cr show ?thesis by simp
  next
    case False
    with b bl have "o_frozen (h ! b)" by (simp add: frozen_freezeAt)
    with assms(1) bl cr cl have "o_frozen (h ! c)" unfolding closed_def by blast
    then show ?thesis using cl by (simp add: frozen_freezeAt)
  qed
qed

lemma deepFreeze_object:
  assumes "a < length h"
  shows "\<exists>h'. deepFreeze h (VRef a) = Inr (h', VRef a) \<and> length h' = length h
           \<and> o_frozen (h' ! a)
           \<and> (\<forall>b<length h. o_props (h' ! b) = o_props (h ! b)
                  \<and> (o_frozen (h ! b) \<longrightarrow> o_frozen (h' ! b)))
           \<and> (closed h \<longrightarrow> closed h')"
proof -
  let ?h = "freezeAll (freezeAt a h) (refs (h ! a))"
  have 1: "deepFreeze h (VRef a) = Inr (?h, VRef a)" using assms by (simp add: deepFreeze_def)
  have 2: "length ?h = length h" by simp
  have 3: "o_frozen (?h ! a)" using assms by (simp add: frozen_freezeAll frozen_freezeAt)
  have 4: "\<forall>b<length h. o_props (?h ! b) = o_props (h ! b)
                  \<and> (o_frozen (h ! b) \<longrightarrow> o_frozen (?h ! b))"
    by (simp add: props_freezeAll frozen_freezeAll frozen_freezeAt)
  have 5: "closed h \<longrightarrow> closed ?h" using assms by (auto intro: pending_closed closed_pending)
  from 1 2 3 4 5 show ?thesis by blast
qed


text \<open>
  Claim C8, as the code has it.  The defaults are \<open>allowUnknown: true\<close>, \<open>convert: true\<close>,
  \<open>presence: "optional"\<close>, \<open>stripUnknown: true\<close>.  Without caller options the resolved
  options are the defaults; with them, a key the caller supplies has the caller's value
  and every other key its default.  The raw value is validated against the schema under
  the resolved options.  When validation reports an error, that very error is thrown.
  When it reports none and the result is an object, the value returned is that same
  object, not a copy: it is frozen where it is, no object is added to the heap, no object
  loses a property or its frozenness, and when the frozen objects of the heap referred to
  frozen objects only before, they still do, so that everything reachable from the result
  is frozen.  When the result is a boolean, a number or a string, it is returned as it is.
\<close>

theorem coerceValue_contract:
  "defaultOptions = [''allowUnknown'' \<mapsto> OBool True, ''convert'' \<mapsto> OBool True,
                     ''presence'' \<mapsto> OStr ''optional'', ''stripUnknown'' \<mapsto> OBool True]
   \<and> resolveOptions defaultOptions None = defaultOptions
   \<and> (\<forall>k. resolveOptions defaultOptions (Some opts) k =
          (case opts k of Some v \<Rightarrow> Some v | None \<Rightarrow> defaultOptions k))
   \<and> (validate h object schema (resolveOptions defaultOptions options) = (h1, Some err, result)
        \<longrightarrow> coerceValue validate schema h object options = Inl (ValidationError err))
   \<and> (validate h object schema (resolveOptions defaultOptions options) = (h1, None, VRef a)
        \<and> a < length h1 \<longrightarrow>
        (\<exists>h2. coerceValue validate schema h object options = Inr (h2, VRef a)
              \<and> length h2 = length h1 \<and> o_frozen (h2 ! a)
              \<and> (\<forall>b<length h1. o_props (h2 ! b) = o_props (h1 ! b)
                     \<and> (o_frozen (h1 ! b) \<longrightarrow> o_frozen (h2 ! b)))
              \<and> (closed h1 \<longrightarrow> closed h2)))
   \<and> (validate h object schema (resolveOptions defaultOptions options) = (h1, None, result)
        \<and> isPrimitive result \<longrightarrow>
        coerceValue validate schema h object options = Inr (h1, result))"
proof (intro conjI impI allI)
  show "defaultOptions = [''allowUnknown'' \<mapsto> OBool True, ''convert'' \<mapsto> OBool True,
                     ''presence'' \<mapsto> OStr ''optional'', ''stripUnknown'' \<mapsto> OBool True]"
    by (simp add: defaultOptions_def)
next
  show "resolveOptions defaultOptions None = defaultOptions"
    by (simp add: resolveOptions_def)
next
  fix k
  show "resolveOptions defaultOptions (Some opts) k =
          (case opts k of Some v \<Rightarrow> Some v | None \<Rightarrow> defaultOptions k)"
    by (simp add: resolveOptions_def map_add_def split: option.splits)
next
  assume "validate h object schema (resolveOptions defaultOptions options) = (h1, Some err, result)"
  then show "coerceValue validate schema h object options = Inl (ValidationError err)"
    by (simp add: coerceValue_def)
next
  assume v: "validate h object schema (resolveOptions defaultOptions options) = (h1, None, VRef a)
        \<and> a < length h1"
  then have "a < length h1" by simp
  then obtain h2 where "deepFreeze h1 (VRef a) = Inr (h2, VRef a)" "length h2 = length h1"
      "o_frozen (h2 ! a)"
      "\<forall>b<length h1. o_props (h2 ! b) = o_props (h1 ! b)
                     \<and> (o_frozen (h1 ! b) \<longrightarrow> o_frozen (h2 ! b))"
      "closed h1 \<longrightarrow> closed h2"
    using deepFreeze_object by blast
  moreover from this(1) v have "coerceValue validate schema h object options = Inr (h2, VRef a)"
    by (simp add: coerceValue_def)
  ultimately show "\<exists>h2. coerceValue validate schema h object options = Inr (h2, VRef a)
              \<and> length h2 = length h1 \<and> o_frozen (h2 ! a)
              \<and> (\<forall>b<length h1. o_props (h2 ! b) = o_props (h1 ! b)
                     \<and> (o_frozen (h1 ! b) \<longrightarrow> o_frozen (h2 ! b)))
              \<and> (closed h1 \<longrightarrow> closed h2)"
    by blast
next
  assume v: "validate h object schema (resolveOptions defaultOptions options) = (h1, None, result)
        \<and> isPrimitive result"
  then have "deepFreeze h1 result = Inr (h1, result)"
    by (cases result) (simp_all add: deepFreeze_def)
  with v show "coerceValue validate schema h object options = Inr (h1, result)"
    by (simp add: coerceValue_def)
qed

text \<open>
  A validator that returns its input when \<open>convert\<close> is on and reports an error otherwise,
  an object with an inner object, and a caller who overrides \<open>convert\<close>.
\<close>

theorem coerceValue_contract_witness:
  "resolveOptions defaultOptions (Some [''convert'' \<mapsto> OBool False]) ''convert''
     = Some (OBool False)
   \<and> resolveOptions defaultOptions (Some [''convert'' \<mapsto> OBool False]) ''presence''
     = Some (OStr ''optional'')
   \<and> (\<lambda>h v (s::unit) opts.
         if opts ''convert'' = Some (OBool True) then (h, None, v) else (h, Some ''invalid'', v))
        [\<lparr>o_props = [(''inner'', VRef 1), (''n'', VNum ''1'')], o_frozen = False\<rparr>,
         \<lparr>o_props = [], o_frozen = False\<rparr>]
        (VRef 0) () (resolveOptions defaultOptions None)
     = ([\<lparr>o_props = [(''inner'', VRef 1), (''n'', VNum ''1'')], o_frozen = False\<rparr>,
         \<lparr>o_props = [], o_frozen = False\<rparr>], None, VRef 0)
   \<and> coerceValue
        (\<lambda>h v (s::unit) opts.
           if opts ''convert'' = Some (OBool True) then (h, None, v) else (h, Some ''invalid'', v))
        () [\<lparr>o_props = [(''inner'', VRef 1), (''n'', VNum ''1'')], o_frozen = False\<rparr>,
            \<lparr>o_props = [], o_frozen = False\<rparr>]
        (VRef 0) None
     = Inr ([\<lparr>o_props = [(''inner'', VRef 1), (''n'', VNum ''1'')], o_frozen = True\<rparr>,
             \<lparr>o_props = [], o_frozen = True\<rparr>], VRef 0)
   \<and> (\<exists>h2. coerceValue
        (\<lambda>h v (s::unit) opts.
           if opts ''convert'' = Some (OBool True) then (h, None, v) else (h, Some ''invalid'', v))
        () [\<lparr>o_props = [(''inner'', VRef 1), (''n'', VNum ''1'')], o_frozen = False\<rparr>,
            \<lparr>o_props = [], o_frozen = False\<rparr>]
        (VRef 0) None = Inr (h2, VRef 0) \<and> o_frozen (h2 ! 0) \<and> closed h2)
   \<and> coerceValue
        (\<lambda>h v (s::unit) opts.
           if opts ''convert'' = Some (OBool True) then (h, None, v) else (h, Some ''invalid'', v))
        () [\<lparr>o_props = [(''inner'', VRef 1), (''n'', VNum ''1'')], o_frozen = False\<rparr>,
            \<lparr>o_props = [], o_frozen = False\<rparr>]
        (VRef 0) (Some [''convert'' \<mapsto> OBool False])
     = Inl (ValidationError ''invalid'')"
proof -
  let ?validate = "\<lambda>h v (s::unit) opts.
       if opts ''convert'' = Some (OBool True) then (h, None, v) else (h, Some ''invalid'', v)"
  let ?caller = "[''convert'' \<mapsto> OBool False]"
  let ?h = "[\<lparr>o_props = [(''inner'', VRef 1), (''n'', VNum ''1'')], o_frozen = False\<rparr>,
             \<lparr>o_props = [], o_frozen = False\<rparr>]"
  note merged = coerceValue_contract
      [where opts = ?caller, THEN conjunct2, THEN conjunct2, THEN conjunct1]
  note failure = coerceValue_contract
      [where validate = ?validate and schema = "()" and h = ?h and object = "VRef 0"
         and options = "Some ?caller" and err = "''invalid''" and ?h1.0 = ?h
         and result = "VRef 0",
       THEN conjunct2, THEN conjunct2, THEN conjunct2, THEN conjunct1]
  note success = coerceValue_contract
      [where validate = ?validate and schema = "()" and h = ?h and object = "VRef 0"
         and options = None and ?h1.0 = ?h and a = 0,
       THEN conjunct2, THEN conjunct2, THEN conjunct2, THEN conjunct2, THEN conjunct1]
  have 1: "resolveOptions defaultOptions (Some ?caller) ''convert'' = Some (OBool False)"
    using merged [THEN spec, of "''convert''"] by simp
  have 2: "resolveOptions defaultOptions (Some ?caller) ''presence'' = Some (OStr ''optional'')"
    using merged [THEN spec, of "''presence''"] by (simp add: defaultOptions_def)
  have 3: "?validate ?h (VRef 0) () (resolveOptions defaultOptions None) = (?h, None, VRef 0)"
    by (simp add: resolveOptions_def defaultOptions_def)
  have c: "closed ?h" by (auto simp: closed_def less_Suc_eq)
  from success 3 c have 5: "\<exists>h2. coerceValue ?validate () ?h (VRef 0) None = Inr (h2, VRef 0)
      \<and> o_frozen (h2 ! 0) \<and> closed h2"
    by fastforce
  have 4: "coerceValue ?validate () ?h (VRef 0) None
     = Inr ([\<lparr>o_props = [(''inner'', VRef 1), (''n'', VNum ''1'')], o_frozen = True\<rparr>,
             \<lparr>o_props = [], o_frozen = True\<rparr>], VRef 0)"
    by (simp add: coerceValue_def deepFreeze_def freezeAt_def refs_def resolveOptions_def
          defaultOptions_def)
  have 6: "?validate ?h (VRef 0) () (resolveOptions defaultOptions (Some ?caller))
     = (?h, Some ''invalid'', VRef 0)"
    using 1 by simp
  have 7: "coerceValue ?validate () ?h (VRef 0) (Some ?caller) = Inl (ValidationError ''invalid'')"
    using failure 6 by blast
  from 1 2 3 4 5 7 show ?thesis by blast
qed

text \<open>
  Claim C8 as it is written fails.  With a validator that accepts every value and gives
  it back: for the value undefined (valid under \<open>presence: "optional"\<close>) validation
  succeeds and \<open>coerceValue\<close> throws a TypeError instead of returning; and for an object
  the value returned is the caller's own object, frozen in place, the heap holding no
  second object that could be a copy.
\<close>

theorem coerceValue_counterexample:
  "coerceValue (\<lambda>h v (s::unit) opts. (h, None::string option, v)) () [] VUndefined None
     = Inl (RuntimeError TypeError)
   \<and> coerceValue (\<lambda>h v (s::unit) opts. (h, None::string option, v)) ()
        [\<lparr>o_props = [(''id'', VStr ''x'')], o_frozen = False\<rparr>] (VRef 0) None
     = Inr ([\<lparr>o_props = [(''id'', VStr ''x'')], o_frozen = True\<rparr>], VRef 0)"
  by (simp add: coerceValue_def deepFreeze_def freezeAt_def refs_def resolveOptions_def)

section \<open>The argument check\<close>

lemma argumentCheck_exit_iff: "(argumentCheck argv = Exit 1) = (falsy (argvAt argv 2) \<and> falsy (argvAt argv 3))"
  by (simp add: argumentCheck_def Let_def)

text \<open>
  Claim C9 says the process exits when either argument is missing.  With \<open>sourcePath\<close>
  given and \<open>destPath\<close> missing the check does not exit: control goes on to load the
  module and run the generator.
\<close>

theorem argumentCheck_missing_destPath:
  "argumentCheck [''node'', ''index.ts'', ''./schemas''] = Continue (Some ''./schemas'') None"
  by (simp add: argumentCheck_def argvAt_def falsy_def)

section \<open>Record declarations\<close>

lemma isRequiredSchema_required: "isRequiredSchema (snd child) = required child"
  by (cases "s_presence (snd child)") (simp_all add: isRequiredSchema_def required_def)

lemma cli_line:
  "''  '' @ cli_propName u child @ '': ''
      @ (if \<not> isRequiredSchema (snd child) \<and> u then optionTypeWrapper else id) t @ '';''
   = fieldLine u child t"
  by (simp add: cli_propName_def fieldLine_def isRequiredSchema_required optionTypeWrapper_def)

lemma cli_mapChildren_lines:
  "cli_mapChildren u children reg =
     (case cli_mapDeriveType (map snd children) reg of
        Inl e \<Rightarrow> Inl e
      | Inr (ts, reg') \<Rightarrow> Inr (map2 (fieldLine u) children ts, reg'))"
proof (induction children arbitrary: reg)
  case Nil
  show ?case by simp
next
  case (Cons child rest)
  show ?case
  proof (cases "cli_deriveType (snd child) reg")
    case (Inl e)
    then show ?thesis by simp
  next
    case (Inr p)
    obtain t r where p: "p = (t, r)" by (cases p)
    show ?thesis
    proof (cases "cli_mapDeriveType (map snd rest) r")
      case (Inl e)
      with Inr p show ?thesis by (simp add: Cons.IH Let_def)
    next
      case (Inr q)
      obtain ts r' where q: "q = (ts, r')" by (cases q)
      from \<open>cli_deriveType (snd child) reg = Inr p\<close> p Inr q show ?thesis
        by (simp add: Cons.IH Let_def cli_line del: append.simps)
    qed
  qed
qed

lemma cli_mapDeriveType_length:
  "cli_mapDeriveType xs reg = Inr (ts, reg') \<Longrightarrow> length ts = length xs"
  by (induction xs arbitrary: reg ts) (auto split: sum.splits prod.splits)

text \<open>
  Claim C5.  The record declaration of cli.ts has, between its first line and the
  closing brace, exactly one field line per child, in the children's order.  The line of
  a child is its key, followed by \<open>?\<close> when the child's presence is not \<open>required\<close> and
  \<open>useOptionTypes\<close> is off, then the type: the derivation of the child's schema, inside
  \<open>Option<...>\<close> when the child is not required and \<open>useOptionTypes\<close> is on.  With
  \<open>useOptionTypes\<close> on no key has a \<open>?\<close>.  The derivations are those of the children
  in order, each started in the registry the one before left; when one throws, the
  writer throws.
\<close>

theorem record_declaration:
  "cli_writeInterfaceType useOptionTypes typeName s reg =
     (case cli_mapDeriveType (map snd (s_children s)) reg of
        Inl e \<Rightarrow> Inl e
      | Inr (ts, reg') \<Rightarrow>
          Inr (''export interface '' @ typeName @ '' {'' @ newline
                 @ js_join newline (map2 (fieldLine useOptionTypes) (s_children s) ts)
                 @ newline @ ''}'', reg'))
   \<and> (cli_mapDeriveType (map snd (s_children s)) reg = Inr (ts, reg') \<longrightarrow>
        length (map2 (fieldLine useOptionTypes) (s_children s) ts) = length (s_children s)
        \<and> derivedInOrder cli_deriveType (map snd (s_children s)) reg ts reg'
        \<and> (\<forall>i<length (s_children s).
              map2 (fieldLine useOptionTypes) (s_children s) ts ! i
                = fieldLine useOptionTypes (s_children s ! i) (ts ! i)))"
proof (intro conjI impI)
  show "cli_writeInterfaceType useOptionTypes typeName s reg =
     (case cli_mapDeriveType (map snd (s_children s)) reg of
        Inl e \<Rightarrow> Inl e
      | Inr (ts, reg') \<Rightarrow>
          Inr (''export interface '' @ typeName @ '' {'' @ newline
                 @ js_join newline (map2 (fieldLine useOptionTypes) (s_children s) ts)
                 @ newline @ ''}'', reg'))"
    by (simp add: cli_writeInterfaceType_def cli_mapChildren_lines split: sum.splits)
next
  assume a: "cli_mapDeriveType (map snd (s_children s)) reg = Inr (ts, reg')"
  then have len: "length ts = length (s_children s)"
    by (auto dest: cli_mapDeriveType_length)
  then show "length (map2 (fieldLine useOptionTypes) (s_children s) ts) = length (s_children s)"
    by simp
  from a show "derivedInOrder cli_deriveType (map snd (s_children s)) reg ts reg'"
    by (rule cli_mapDeriveType_in_order)
  from len show "\<forall>i<length (s_children s).
              map2 (fieldLine useOptionTypes) (s_children s) ts ! i
                = fieldLine useOptionTypes (s_children s ! i) (ts ! i)"
    by simp
qed


text \<open>A record with an optional identifier, a required name and an optional array.\<close>

theorem record_declaration_witness:
  "cli_mapDeriveType (map snd (s_children (Schema ''object'' [] None [] [] []
          [(''id'', Schema ''string'' [] None [] [''guid''] [] [] []),
           (''name'', Schema ''string'' [] (Some ''required'') [] [] [] [] []),
           (''tags'', Schema ''array'' [] None [] []
                      [Schema ''string'' [] None [] [] [] [] []] [] [])] []))) []
     = Inr ([''Uuid'', ''string'', ''string[]''], [\<lparr>d_name = ''Uuid'', d_type = Some ''string'', d_skip = None\<rparr>])
   \<and> cli_writeInterfaceType False ''Widget'' (Schema ''object'' [] None [] [] []
          [(''id'', Schema ''string'' [] None [] [''guid''] [] [] []),
           (''name'', Schema ''string'' [] (Some ''required'') [] [] [] [] []),
           (''tags'', Schema ''array'' [] None [] []
                      [Schema ''string'' [] None [] [] [] [] []] [] [])] []) []
     = Inr (''export interface Widget {'' @ newline
            @ ''  id?: Uuid;'' @ newline
            @ ''  name: string;'' @ newline
            @ ''  tags?: string[];'' @ newline @ ''}'', [\<lparr>d_name = ''Uuid'', d_type = Some ''string'', d_skip = None\<rparr>])
   \<and> cli_writeInterfaceType True ''Widget'' (Schema ''object'' [] None [] [] []
          [(''id'', Schema ''string'' [] None [] [''guid''] [] [] []),
           (''name'', Schema ''string'' [] (Some ''required'') [] [] [] [] []),
           (''tags'', Schema ''array'' [] None [] []
                      [Schema ''string'' [] None [] [] [] [] []] [] [])] []) []
     = Inr (''export interface Widget {'' @ newline
            @ ''  id: Option<Uuid>;'' @ newline
            @ ''  name: string;'' @ newline
            @ ''  tags: Option<string[]>;'' @ newline @ ''}'', [\<lparr>d_name = ''Uuid'', d_type = Some ''string'', d_skip = None\<rparr>])
   \<and> length (map2 (fieldLine False) (s_children (Schema ''object'' [] None [] [] []
          [(''id'', Schema ''string'' [] None [] [''guid''] [] [] []),
           (''name'', Schema ''string'' [] (Some ''required'') [] [] [] [] []),
           (''tags'', Schema ''array'' [] None [] []
                      [Schema ''string'' [] None [] [] [] [] []] [] [])] [])) [''Uuid'', ''string'', ''string[]'']) = 3
   \<and> derivedInOrder cli_deriveType (map snd (s_children (Schema ''object'' [] None [] [] []
          [(''id'', Schema ''string'' [] None [] [''guid''] [] [] []),
           (''name'', Schema ''string'' [] (Some ''required'') [] [] [] [] []),
           (''tags'', Schema ''array'' [] None [] []
                      [Schema ''string'' [] None [] [] [] [] []] [] [])] []))) []
        [''Uuid'', ''string'', ''string[]''] [\<lparr>d_name = ''Uuid'', d_type = Some ''string'', d_skip = None\<rparr>]"
proof -
  have d: "cli_mapDeriveType (map snd (s_children (Schema ''object'' [] None [] [] []
          [(''id'', Schema ''string'' [] None [] [''guid''] [] [] []),
           (''name'', Schema ''string'' [] (Some ''required'') [] [] [] [] []),
           (''tags'', Schema ''array'' [] None [] []
                      [Schema ''string'' [] None [] [] [] [] []] [] [])] []))) []
     = Inr ([''Uuid'', ''string'', ''string[]''], [\<lparr>d_name = ''Uuid'', d_type = Some ''string'', d_skip = None\<rparr>])"
    by (simp add: usableNotes_def uuidCheck_def alternativesCheck_def joiToTypescript_def
          addDiscoveredType_def)
  show ?thesis
    using d
      record_declaration [where s = "(Schema ''object'' [] None [] [] []
          [(''id'', Schema ''string'' [] None [] [''guid''] [] [] []),
           (''name'', Schema ''string'' [] (Some ''required'') [] [] [] [] []),
           (''tags'', Schema ''array'' [] None [] []
                      [Schema ''string'' [] None [] [] [] [] []] [] [])] [])" and reg = "[]" and useOptionTypes = False
         and typeName = "''Widget''" and ts = "[''Uuid'', ''string'', ''string[]'']"
         and reg' = "[\<lparr>d_name = ''Uuid'', d_type = Some ''string'', d_skip = None\<rparr>]"]
      record_declaration [where s = "(Schema ''object'' [] None [] [] []
          [(''id'', Schema ''string'' [] None [] [''guid''] [] [] []),
           (''name'', Schema ''string'' [] (Some ''required'') [] [] [] [] []),
           (''tags'', Schema ''array'' [] None [] []
                      [Schema ''string'' [] None [] [] [] [] []] [] [])] [])" and reg = "[]" and useOptionTypes = True
         and typeName = "''Widget''" and ts = "[''Uuid'', ''string'', ''string[]'']"
         and reg' = "[\<lparr>d_name = ''Uuid'', d_type = Some ''string'', d_skip = None\<rparr>]"]
    by (simp add: fieldLine_def required_def)
qed

section \<open>Output assembly: aliases first\<close>

lemma typed_Nil: "typed []"
  by (simp add: typed_def)

lemma typed_add:
  "typed reg \<Longrightarrow> (notSkipped t \<longrightarrow> d_type t \<noteq> None) \<Longrightarrow> typed (addDiscoveredType t reg)"
  by (auto simp: typed_def addDiscoveredType_def)

lemma typed_unwrapNotes:
  "typed reg \<Longrightarrow> unwrapNotes ty nts reg = Inr (n, reg') \<Longrightarrow> typed reg'"
  by (auto simp: unwrapNotes_def typed_add split: sum.splits)

lemma typed_cli_derive:
  "typed reg \<Longrightarrow> cli_deriveType s reg = Inr (t, reg') \<Longrightarrow> typed reg'"
  "typed reg \<Longrightarrow> cli_unwrapArray items reg = Inr (t, reg') \<Longrightarrow> typed reg'"
  "typed reg \<Longrightarrow> cli_mapDeriveType xs reg = Inr (ts, reg') \<Longrightarrow> typed reg'"
proof (induction s reg and items reg and xs reg arbitrary: t reg' and t reg' and ts reg'
       rule: cli_deriveType_cli_unwrapArray_cli_mapDeriveType.induct)
  case (1 ty nts pres valids tests items children matches reg)
  let ?s = "Schema ty nts pres valids tests items children matches"
  note res = \<open>cli_deriveType ?s reg = Inr (t, reg')\<close>
  show ?case
  proof (cases "ty = ''array''")
    case True
    with res have "cli_unwrapArray items reg = Inr (t, reg')" by simp
    with True "1.prems"(1) show ?thesis by (rule "1.IH"(1))
  next
    case notArray: False
    show ?thesis
    proof (cases "usableNotes ?s")
      case True
      with notArray res have "unwrapNotes ty nts reg = Inr (t, reg')" by simp
      with "1.prems"(1) show ?thesis by (rule typed_unwrapNotes)
    next
      case noNotes: False
      show ?thesis
      proof (cases "uuidCheck ?s")
        case True
        with notArray noNotes have eq: "cli_deriveType ?s reg = Inr (''Uuid'', addDiscoveredType
            \<lparr>d_name = ''Uuid'', d_type = Some ''string'', d_skip = None\<rparr> reg)" by simp
        have "typed (addDiscoveredType
            \<lparr>d_name = ''Uuid'', d_type = Some ''string'', d_skip = None\<rparr> reg)"
          using "1.prems"(1) by (rule typed_add) simp
        moreover have "addDiscoveredType
            \<lparr>d_name = ''Uuid'', d_type = Some ''string'', d_skip = None\<rparr> reg = reg'"
          by (rule conjunct2 [OF prod.inject [THEN iffD1,
                OF sum.inject(2) [THEN iffD1, OF res [unfolded eq]]]])
        ultimately show ?thesis by (simp only:)
      next
        case noGuid: False
        show ?thesis
        proof (cases "alternativesCheck ?s")
          case True
          with notArray noNotes noGuid res obtain types where
            m: "cli_mapDeriveType matches reg = Inr (types, reg')"
            by (simp split: sum.splits prod.splits)
          from notArray noNotes noGuid True "1.prems"(1) m show ?thesis by (rule "1.IH"(2))
        next
          case False
          with notArray noNotes noGuid res have "reg' = reg" by simp
          with "1.prems"(1) show ?thesis by simp
        qed
      qed
    qed
  qed
next
  case (2 reg)
  then show ?case by simp
next
  case (3 item rest reg)
  note res = \<open>cli_unwrapArray (item # rest) reg = Inr (t, reg')\<close>
  show ?case
  proof (cases "rest = []")
    case True
    with res obtain t0 where d: "cli_deriveType item reg = Inr (t0, reg')"
      by (cases "cli_deriveType item reg") auto
    from True have "\<not> rest \<noteq> []" by simp
    then show ?thesis using "3.prems"(1) d by (rule "3.IH"(2))
  next
    case False
    have "\<exists>types. cli_mapDeriveType (item # rest) reg = Inr (types, reg')"
    proof (cases "cli_mapDeriveType (item # rest) reg")
      case (Inl e)
      with res False show ?thesis by (simp only: cli_unwrapArray.simps if_True sum.case) simp
    next
      case (Inr p)
      with res False show ?thesis
        by (cases p) (simp only: cli_unwrapArray.simps if_True sum.case prod.case, simp)
    qed
    then obtain types where m: "cli_mapDeriveType (item # rest) reg = Inr (types, reg')" ..
    from False "3.prems"(1) m show ?thesis by (rule "3.IH"(1))
  qed
next
  case (4 reg)
  then show ?case by simp
next
  case (5 x xs reg)
  from "5.prems"(2) obtain t0 tys r where d: "cli_deriveType x reg = Inr (t0, r)"
    and m: "cli_mapDeriveType xs r = Inr (tys, reg')"
    by (rule cli_mapDeriveType_Cons_Inr)
  have "typed r" using "5.prems"(1) d by (rule "5.IH"(1))
  then show ?case using m by (rule "5.IH"(2) [OF d refl])
qed

lemma typed_idx_derive:
  "typed reg \<Longrightarrow> idx_deriveType s reg = Inr (t, reg') \<Longrightarrow> typed reg'"
  "typed reg \<Longrightarrow> idx_unwrapArray items reg = Inr (t, reg') \<Longrightarrow> typed reg'"
  "typed reg \<Longrightarrow> idx_mapDeriveType xs reg = Inr (ts, reg') \<Longrightarrow> typed reg'"
proof (induction s reg and items reg and xs reg arbitrary: t reg' and t reg' and ts reg'
       rule: idx_deriveType_idx_unwrapArray_idx_mapDeriveType.induct)
  case (1 ty nts pres valids tests items children matches reg)
  let ?s = "Schema ty nts pres valids tests items children matches"
  note res = \<open>idx_deriveType ?s reg = Inr (t, reg')\<close>
  show ?case
  proof (cases "ty = ''array''")
    case True
    with res have "idx_unwrapArray items reg = Inr (t, reg')" by simp
    with True "1.prems"(1) show ?thesis by (rule "1.IH"(1))
  next
    case notArray: False
    show ?thesis
    proof (cases "usableNotes ?s")
      case True
      with notArray res have "unwrapNotes ty nts reg = Inr (t, reg')" by simp
      with "1.prems"(1) show ?thesis by (rule typed_unwrapNotes)
    next
      case noNotes: False
      show ?thesis
      proof (cases "uuidCheck ?s")
        case True
        with notArray noNotes have eq: "idx_deriveType ?s reg = Inr (''Uuid'', addDiscoveredType
            \<lparr>d_name = ''Uuid'', d_type = Some ''string'', d_skip = None\<rparr> reg)" by simp
        have "typed (addDiscoveredType
            \<lparr>d_name = ''Uuid'', d_type = Some ''string'', d_skip = None\<rparr> reg)"
          using "1.prems"(1) by (rule typed_add) simp
        moreover have "addDiscoveredType
            \<lparr>d_name = ''Uuid'', d_type = Some ''string'', d_skip = None\<rparr> reg = reg'"
          by (rule conjunct2 [OF prod.inject [THEN iffD1,
                OF sum.inject(2) [THEN iffD1, OF res [unfolded eq]]]])
        ultimately show ?thesis by (simp only:)
      next
        case noGuid: False
        with notArray noNotes res have "reg' = reg" by simp
        with "1.prems"(1) show ?thesis by simp
      qed
    qed
  qed
next
  case (2 reg)
  then show ?case by simp
next
  case (3 item rest reg)
  note res = \<open>idx_unwrapArray (item # rest) reg = Inr (t, reg')\<close>
  show ?case
  proof (cases "rest = []")
    case True
    with res obtain t0 where d: "idx_deriveType item reg = Inr (t0, reg')"
      by (cases "idx_deriveType item reg") auto
    from True have "\<not> rest \<noteq> []" by simp
    then show ?thesis using "3.prems"(1) d by (rule "3.IH"(2))
  next
    case False
    have "\<exists>types. idx_mapDeriveType (item # rest) reg = Inr (types, reg')"
    proof (cases "idx_mapDeriveType (item # rest) reg")
      case (Inl e)
      with res False show ?thesis by (simp only: idx_unwrapArray.simps if_True sum.case) simp
    next
      case (Inr p)
      with res False show ?thesis
        by (cases p) (simp only: idx_unwrapArray.simps if_True sum.case prod.case, simp)
    qed
    then obtain types where m: "idx_mapDeriveType (item # rest) reg = Inr (types, reg')" ..
    from False "3.prems"(1) m show ?thesis by (rule "3.IH"(1))
  qed
next
  case (4 reg)
  then show ?case by simp
next
  case (5 x xs reg)
  from "5.prems"(2) obtain t0 tys r where d: "idx_deriveType x reg = Inr (t0, r)"
    and m: "idx_mapDeriveType xs r = Inr (tys, reg')"
    by (rule idx_mapDeriveType_Cons_Inr)
  have "typed r" using "5.prems"(1) d by (rule "5.IH"(1))
  then show ?case using m by (rule "5.IH"(2) [OF d refl])
qed

lemma typed_cli_mapChildren:
  "typed reg \<Longrightarrow> cli_mapChildren u cs reg = Inr (ls, reg') \<Longrightarrow> typed reg'"
proof (induction cs arbitrary: reg ls)
  case Nil
  then show ?case by simp
next
  case (Cons c cs)
  then show ?case
    by (auto simp: Let_def split: sum.splits prod.splits dest: typed_cli_derive(1))
qed

lemma typed_idx_mapChildren:
  "typed reg \<Longrightarrow> idx_mapChildren cs reg = Inr (ls, reg') \<Longrightarrow> typed reg'"
proof (induction cs arbitrary: reg ls)
  case Nil
  then show ?case by simp
next
  case (Cons c cs)
  then show ?case
    by (auto split: sum.splits prod.splits dest: typed_idx_derive(1))
qed

lemma typed_cli_typeWriters:
  "typed reg \<Longrightarrow> cli_typeWriters u name s reg = Inr (d, reg') \<Longrightarrow> typed reg'"
  by (auto simp: cli_typeWriters_def cli_writeInterfaceType_def
           split: if_splits sum.splits prod.splits dest: typed_cli_mapChildren)

lemma typed_idx_typeWriters:
  "typed reg \<Longrightarrow> idx_typeWriters name s reg = Inr (d, reg') \<Longrightarrow> typed reg'"
  by (auto simp: idx_typeWriters_def idx_writeInterfaceType_def
           split: if_splits sum.splits prod.splits dest: typed_idx_mapChildren)

lemma typed_skip: "typed reg \<Longrightarrow>
  typed (addDiscoveredType \<lparr>d_name = name, d_type = None, d_skip = Some True\<rparr> reg)"
  by (rule typed_add) (simp_all add: notSkipped_def)

lemma typed_idx_mapExports:
  "typed reg \<Longrightarrow> idx_mapExports objects reg = Inr (ds, reg') \<Longrightarrow> typed reg'"
proof (induction objects arbitrary: reg ds)
  case Nil
  then show ?case by simp
next
  case (Cons ob objects)
  obtain typeName ty where ob: "ob = (typeName, ty)" by (cases ob)
  show ?case
  proof (cases "usableNotes ty")
    case False
    with Cons.prems ob show ?thesis
      by (auto split: sum.splits prod.splits dest: Cons.IH)
  next
    case True
    with Cons.prems ob obtain name d r ds' where
      w: "idx_typeWriters name ty
            (addDiscoveredType \<lparr>d_name = name, d_type = None, d_skip = Some True\<rparr> reg) = Inr (d, r)"
      and m: "idx_mapExports objects r = Inr (ds', reg')"
      by (auto split: sum.splits prod.splits)
    have "typed r" using typed_skip [OF Cons.prems(1)] w by (rule typed_idx_typeWriters)
    then show ?thesis using m by (rule Cons.IH)
  qed
qed

lemma typed_cli_mapSchemas:
  "typed reg \<Longrightarrow> cli_mapSchemas u st schemas reg = Inr (st', ds, reg') \<Longrightarrow> typed reg'"
proof (induction schemas arbitrary: st reg ds)
  case Nil
  then show ?case by simp
next
  case (Cons ob schemas)
  obtain name a where ob: "ob = (name, a)" by (cases ob)
  from Cons.prems ob obtain schema d r ds' where
    w: "cli_typeWriters u name schema
          (addDiscoveredType \<lparr>d_name = name, d_type = None, d_skip = Some True\<rparr> reg) = Inr (d, r)"
    and m: "cli_mapSchemas u (pushNote name a st) schemas r = Inr (st', ds', reg')"
    by (auto split: if_splits option.splits sum.splits prod.splits)
  have "typed r" using typed_skip [OF Cons.prems(1)] w by (rule typed_cli_typeWriters)
  then show ?case using m by (rule Cons.IH)
qed

lemma idx_unshiftAliases_rev:
  "\<forall>t\<in>set ts. d_type t \<noteq> None \<Longrightarrow>
     idx_unshiftAliases ts out = Inr (rev (map plainAlias ts) @ out)"
proof (induction ts arbitrary: out)
  case Nil
  show ?case by simp
next
  case (Cons t ts)
  then obtain ty where "d_type t = Some ty" by auto
  with Cons show ?case
    by (simp add: idx_writeTypeAlias_def idx_resolveTypeDefinition_def typeArg_def plainAlias_def)
qed

lemma cli_unshiftAliases_rev:
  "\<forall>t\<in>set ts. d_type t \<noteq> None \<Longrightarrow>
     cli_unshiftAliases ts out = Inr (rev (map plainAlias ts) @ out)"
proof (induction ts arbitrary: out)
  case Nil
  show ?case by simp
next
  case (Cons t ts)
  then obtain ty where "d_type t = Some ty" by auto
  with Cons show ?case
    by (simp add: cli_writeTypeAlias_def cli_resolveTypeDefinition_def typeArg_def plainAlias_def)
qed

lemma typed_filter: "typed reg \<Longrightarrow> \<forall>t\<in>set (filter notSkipped reg). d_type t \<noteq> None"
  by (auto simp: typed_def)

text \<open>
  Claim C6.  When all top-level schemas are written, with declarations \<open>out\<close> and
  registry \<open>reg\<close>, the generator's output is: the plain alias declarations of exactly the
  entries of \<open>reg\<close> that are not marked \<open>skip\<close>, the most recently discovered first,
  and after them the top-level declarations \<open>out\<close>.  Entries marked \<open>skip\<close> give no
  alias.  Every entry that is not marked has a type, so no alias fails.  (In cli.ts with
  \<open>useOptionTypes\<close> the import line of \<open>Option\<close> comes before the aliases.)
\<close>

theorem aliases_prepended:
  "(idx_mapExports objects [] = Inr (out, reg) \<longrightarrow>
      idx_runTypeGenerator objects
        = Inr (rev (map plainAlias (filter notSkipped reg)) @ out)
      \<and> (\<forall>t\<in>set (filter notSkipped reg). d_type t \<noteq> None))
   \<and> (cli_mapSchemas useOptionTypes st (cli_schemaTypes exported) [] = Inr (st', out, reg) \<longrightarrow>
      cli_runTypeGenerator useOptionTypes st exported
        = Inr (st',
               (if useOptionTypes then [optionImport] else [])
                 @ rev (map plainAlias (filter notSkipped reg)) @ out)
      \<and> (\<forall>t\<in>set (filter notSkipped reg). d_type t \<noteq> None))"
proof (intro conjI impI)
  assume a: "idx_mapExports objects [] = Inr (out, reg)"
  have "typed reg" using typed_Nil a by (rule typed_idx_mapExports)
  then show t: "\<forall>t\<in>set (filter notSkipped reg). d_type t \<noteq> None" by (rule typed_filter)
  show "idx_runTypeGenerator objects
        = Inr (rev (map plainAlias (filter notSkipped reg)) @ out)"
    using a by (simp add: idx_runTypeGenerator_def idx_unshiftAliases_rev [OF t])
next
  assume a: "cli_mapSchemas useOptionTypes st (cli_schemaTypes exported) [] = Inr (st', out, reg)"
  have "typed reg" using typed_Nil a by (rule typed_cli_mapSchemas)
  then show t: "\<forall>t\<in>set (filter notSkipped reg). d_type t \<noteq> None" by (rule typed_filter)
  show "cli_runTypeGenerator useOptionTypes st exported
        = Inr (st',
               (if useOptionTypes then [optionImport] else [])
                 @ rev (map plainAlias (filter notSkipped reg)) @ out)"
    using a by (simp add: cli_runTypeGenerator_def cli_unshiftAliases_rev [OF t])
qed


lemma widget_idx_mapExports:
  "idx_mapExports [(''Widget'', widget)] []
     = Inr ([''export interface Widget {'' @ newline @ ''  id?: Uuid;'' @ newline
               @ ''  price: Money;'' @ newline @ ''}''], widgetRegistry)"
  by (simp add: widget_def widgetRegistry_def usableNotes_def typeCheck_def nameFromNotes_def
        stripTypeCheck_def idx_typeWriters_def idx_writeInterfaceType_def idx_propName_def
        uuidCheck_def unwrapNotes_def addDiscoveredType_def joiToTypescript_def)

lemma widget_cli_mapSchemas:
  "cli_mapSchemas True widgetStore (cli_schemaTypes [(''WidgetSchema'', 2)]) []
     = Inr (widgetStore,
            [''export interface Widget {'' @ newline @ ''  id: Option<Uuid>;'' @ newline
               @ ''  price: Money;'' @ newline @ ''}''], widgetRegistry)"
  by (simp add: widgetStore_def widgetRegistry_def usableNotes_def typeCheck_def
        nameFromNotes_def stripTypeCheck_def cli_typeWriters_def cli_writeInterfaceType_def
        cli_propName_def uuidCheck_def unwrapNotes_def addDiscoveredType_def
        joiToTypescript_def cli_schemaTypes_def schemaCheck_def stripSchemaCheck_def
        pushNote_def isRequiredSchema_def optionTypeWrapper_def alternativesCheck_def
        enumerationOrder_def arrayIndex_def digitValue_def schemaAt.simps)

text \<open>The run over the record above, in index.ts and in cli.ts with \<open>useOptionTypes\<close>.\<close>

theorem aliases_prepended_witness:
  "idx_mapExports [(''Widget'', widget)] []
     = Inr ([''export interface Widget {'' @ newline @ ''  id?: Uuid;'' @ newline
               @ ''  price: Money;'' @ newline @ ''}''], widgetRegistry)
   \<and> idx_runTypeGenerator [(''Widget'', widget)]
     = Inr [''export type Money = number;'', ''export type Uuid = string;'',
            ''export interface Widget {'' @ newline @ ''  id?: Uuid;'' @ newline
               @ ''  price: Money;'' @ newline @ ''}'']
   \<and> cli_mapSchemas True widgetStore (cli_schemaTypes [(''WidgetSchema'', 2)]) []
     = Inr (widgetStore,
            [''export interface Widget {'' @ newline @ ''  id: Option<Uuid>;'' @ newline
               @ ''  price: Money;'' @ newline @ ''}''], widgetRegistry)
   \<and> cli_runTypeGenerator True widgetStore [(''WidgetSchema'', 2)]
     = Inr (widgetStore,
            [optionImport, ''export type Money = number;'', ''export type Uuid = string;'',
             ''export interface Widget {'' @ newline @ ''  id: Option<Uuid>;'' @ newline
               @ ''  price: Money;'' @ newline @ ''}''])"
  using widget_idx_mapExports widget_cli_mapSchemas
    aliases_prepended
      [where objects = "[(''Widget'', widget)]" and reg = widgetRegistry
         and out = "[''export interface Widget {'' @ newline @ ''  id?: Uuid;'' @ newline
               @ ''  price: Money;'' @ newline @ ''}'']"
         and useOptionTypes = False and exported = "[]" and st = "[]" and st' = "[]"]
    aliases_prepended
      [where objects = "[]" and reg = widgetRegistry
         and out = "[''export interface Widget {'' @ newline @ ''  id: Option<Uuid>;''
               @ newline @ ''  price: Money;'' @ newline @ ''}'']"
         and useOptionTypes = True and exported = "[(''WidgetSchema'', 2)]"
         and st = widgetStore and st' = widgetStore]
  by (simp add: widgetRegistry_def plainAlias_def notSkipped_def)

section \<open>Generation changes its input\<close>

lemma length_pushNote [simp]: "length (pushNote name a st) = length st"
  by (simp add: pushNote_def)

lemma notes_pushNote_same:
  "a < length st \<Longrightarrow> n_notes (pushNote name a st ! a) = addNote name (n_notes (st ! a))"
  by (simp add: pushNote_def addNote_def find_None_iff)

lemma notes_pushNote_other:
  "b \<noteq> a \<Longrightarrow> n_notes (pushNote name a st ! b) = n_notes (st ! b)"
  by (simp add: pushNote_def)

lemma frame_pushNote:
  "b < length st \<Longrightarrow> (pushNote name a st ! b)\<lparr>n_notes := n_notes (st ! b)\<rparr> = st ! b"
  by (cases "b = a") (simp_all add: pushNote_def)

lemma length_pushNotes [simp]: "length (pushNotes xs st) = length st"
  by (induction xs st rule: pushNotes.induct) simp_all

lemma notes_pushNotes:
  "a < length st \<Longrightarrow> n_notes (pushNotes xs st ! a) = addNotes (exportedAs a xs) (n_notes (st ! a))"
proof (induction xs st rule: pushNotes.induct)
  case (1 st)
  show ?case by (simp add: exportedAs_def)
next
  case (2 name b rest st)
  then have "n_notes (pushNotes rest (pushNote name b st) ! a)
      = addNotes (exportedAs a rest) (n_notes (pushNote name b st ! a))" by simp
  then show ?case using "2.prems"
    by (cases "b = a") (simp_all add: exportedAs_def notes_pushNote_same notes_pushNote_other)
qed

lemma frame_pushNotes:
  "a < length st \<Longrightarrow> (pushNotes xs st ! a)\<lparr>n_notes := n_notes (st ! a)\<rparr> = st ! a"
proof (induction xs st rule: pushNotes.induct)
  case (1 st)
  show ?case by simp
next
  case (2 name b rest st)
  then have 1: "(pushNotes rest (pushNote name b st) ! a)\<lparr>n_notes := n_notes (pushNote name b st ! a)\<rparr>
      = pushNote name b st ! a" by simp
  have "(pushNotes rest (pushNote name b st) ! a)\<lparr>n_notes := n_notes (st ! a)\<rparr>
      = ((pushNotes rest (pushNote name b st) ! a)\<lparr>n_notes := n_notes (pushNote name b st ! a)\<rparr>)
          \<lparr>n_notes := n_notes (st ! a)\<rparr>" by simp
  also have "\<dots> = (pushNote name b st ! a)\<lparr>n_notes := n_notes (st ! a)\<rparr>" by (simp only: 1)
  also have "\<dots> = st ! a" using "2.prems" by (rule frame_pushNote)
  finally show ?case by simp
qed

lemma cli_mapSchemas_store:
  "cli_mapSchemas u st xs reg = Inr (st', ds, reg') \<Longrightarrow> st' = pushNotes xs st"
proof (induction xs arbitrary: st reg ds)
  case Nil
  then show ?case by simp
next
  case (Cons ob xs)
  obtain name a where ob: "ob = (name, a)" by (cases ob)
  from Cons.prems ob obtain r ds' where
    "cli_mapSchemas u (pushNote name a st) xs r = Inr (st', ds', reg')"
    by (auto split: if_splits option.splits sum.splits prod.splits)
  then have "st' = pushNotes xs (pushNote name a st)" by (rule Cons.IH)
  with ob show ?case by simp
qed

lemma schemaAt_notes: "schemaAt st a = Some schema \<Longrightarrow> s_notes schema = n_notes (st ! a)"
  by (subst (asm) schemaAt.simps) (auto split: if_splits option.splits)

lemma addNote_has: "''type:'' @ name \<in> set (addNote name nts)"
  by (simp add: addNote_def)

text \<open>
  Claim C10.  A run of cli.ts that succeeds leaves its input changed, and only so: no
  object is added or removed, every field of every object other than its notes is as
  before, and the notes of an object are its notes before with, for every name
  \<open><Name>\<close> under which the object is exported as \<open><Name>Schema\<close>, in the order of the
  run, the note \<open>type:<Name>\<close> appended unless that exact note is there.  An object that is
  not exported keeps its notes; an object exported once gets the one note unless it has
  it.  The note is pushed before the declaration is written: the writer is given the
  schema read from the store after the push, which has the note.
\<close>

theorem generation_pushes_type_note:
  "(cli_runTypeGenerator useOptionTypes st exported = Inr (st', out) \<longrightarrow>
      length st' = length st
      \<and> (\<forall>a<length st.
            n_notes (st' ! a) = addNotes (exportedAs a (cli_schemaTypes exported)) (n_notes (st ! a))
            \<and> (st' ! a)\<lparr>n_notes := n_notes (st ! a)\<rparr> = st ! a))
   \<and> (cli_mapSchemas useOptionTypes st ((name, a) # rest) reg = Inr (st', ds, reg') \<longrightarrow>
        (\<exists>schema d reg1.
            schemaAt (pushNote name a st) a = Some schema
            \<and> ''type:'' @ name \<in> set (s_notes schema)
            \<and> cli_typeWriters useOptionTypes name schema
                 (addDiscoveredType \<lparr>d_name = name, d_type = None, d_skip = Some True\<rparr> reg)
               = Inr (d, reg1)
            \<and> ds \<noteq> [] \<and> hd ds = d))
   \<and> addNotes [] nts = nts
   \<and> addNotes [name] nts = (if ''type:'' @ name \<in> set nts then nts else nts @ [''type:'' @ name])"
proof (intro conjI impI)
  assume r: "cli_runTypeGenerator useOptionTypes st exported = Inr (st', out)"
  then obtain ds reg where
    "cli_mapSchemas useOptionTypes st (cli_schemaTypes exported) [] = Inr (st', ds, reg)"
    by (auto simp: cli_runTypeGenerator_def split: sum.splits prod.splits)
  then have s: "st' = pushNotes (cli_schemaTypes exported) st" by (rule cli_mapSchemas_store)
  then show "length st' = length st" by simp
  from s show "\<forall>a<length st.
            n_notes (st' ! a) = addNotes (exportedAs a (cli_schemaTypes exported)) (n_notes (st ! a))
            \<and> (st' ! a)\<lparr>n_notes := n_notes (st ! a)\<rparr> = st ! a"
    by (simp add: notes_pushNotes frame_pushNotes)
next
  assume m: "cli_mapSchemas useOptionTypes st ((name, a) # rest) reg = Inr (st', ds, reg')"
  then have al: "a < length st" by (simp split: if_splits)
  from m al obtain schema d reg1 ds' where
    sa: "schemaAt (pushNote name a st) a = Some schema"
    and w: "cli_typeWriters useOptionTypes name schema
                 (addDiscoveredType \<lparr>d_name = name, d_type = None, d_skip = Some True\<rparr> reg)
               = Inr (d, reg1)"
    and d: "ds = d # ds'"
    by (auto split: if_splits option.splits sum.splits prod.splits)
  from sa have "s_notes schema = n_notes (pushNote name a st ! a)" by (rule schemaAt_notes)
  with al have "s_notes schema = addNote name (n_notes (st ! a))"
    by (simp add: notes_pushNote_same)
  then have "''type:'' @ name \<in> set (s_notes schema)"
    by (simp only: addNote_has)
  with sa w d show "\<exists>schema d reg1.
            schemaAt (pushNote name a st) a = Some schema
            \<and> ''type:'' @ name \<in> set (s_notes schema)
            \<and> cli_typeWriters useOptionTypes name schema
                 (addDiscoveredType \<lparr>d_name = name, d_type = None, d_skip = Some True\<rparr> reg)
               = Inr (d, reg1)
            \<and> ds \<noteq> [] \<and> hd ds = d"
    by auto
qed (simp_all add: addNote_def)

text \<open>
  The order of \<open>schemaTypes\<close>: the names that are array indices first, ascending, then
  the others as they were exported; an export not named \<open>...Schema\<close> is left out.
\<close>

lemma cli_schemaTypes_order:
  "cli_schemaTypes
     [(''NameSchema'', 0), (''10Schema'', 1), (''nameFactory'', 3), (''2Schema'', 5),
      (''01Schema'', 2)]
   = [(''2'', 5), (''10'', 1), (''Name'', 0), (''01'', 2)]"
  by (simp add: cli_schemaTypes_def enumerationOrder_def schemaCheck_def stripSchemaCheck_def
        arrayIndex_def digitValue_def)

text \<open>
  The run over the shared store: the fields \<open>street\<close> and \<open>nick\<close> are the string object
  exported as \<open>Name\<close> and derive to \<open>Name\<close>, the field \<open>address\<close> is the object exported
  as \<open>Address\<close> and derives to \<open>Address\<close>.
\<close>

lemma family_run:
  "cli_runTypeGenerator False familyStore familyExports
     = Inr (familyAfter,
            [''export type Name = string;'',
             ''export interface Address {'' @ newline @ ''  street?: Name;'' @ newline @ ''}'',
             ''export interface Person {'' @ newline @ ''  address?: Address;'' @ newline
               @ ''  nick?: Name;'' @ newline @ ''}''])"
  by (simp add: cli_runTypeGenerator_def familyStore_def familyExports_def familyAfter_def
        cli_schemaTypes_def enumerationOrder_def arrayIndex_def digitValue_def
        schemaCheck_def stripSchemaCheck_def pushNote_def schemaAt.simps
        cli_typeWriters_def cli_writeTypeAlias_def cli_resolveTypeDefinition_def
        cli_writeInterfaceType_def cli_propName_def isRequiredSchema_def getUnion_def
        usableNotes_def typeCheck_def unwrapNotes_def nameFromNotes_def stripTypeCheck_def
        uuidCheck_def alternativesCheck_def joiToTypescript_def addDiscoveredType_def
        notSkipped_def)

text \<open>The store before and after that run.\<close>

theorem generation_pushes_type_note_witness:
  "cli_runTypeGenerator False familyStore familyExports
     = Inr (familyAfter,
            [''export type Name = string;'',
             ''export interface Address {'' @ newline @ ''  street?: Name;'' @ newline @ ''}'',
             ''export interface Person {'' @ newline @ ''  address?: Address;'' @ newline
               @ ''  nick?: Name;'' @ newline @ ''}''])
   \<and> length familyAfter = length familyStore
   \<and> n_notes (familyAfter ! 0)
       = addNotes (exportedAs 0 (cli_schemaTypes familyExports)) (n_notes (familyStore ! 0))
   \<and> n_notes (familyAfter ! 0) = [''type:Name'']
   \<and> n_notes (familyAfter ! 2)
       = addNotes (exportedAs 2 (cli_schemaTypes familyExports)) (n_notes (familyStore ! 2))
   \<and> n_notes (familyAfter ! 2) = [''person'', ''type:Person'']
   \<and> (familyAfter ! 2)\<lparr>n_notes := n_notes (familyStore ! 2)\<rparr> = familyStore ! 2"
proof -
  from family_run
    generation_pushes_type_note
      [where useOptionTypes = False and st = familyStore and exported = familyExports
         and st' = familyAfter
         and out = "[''export type Name = string;'',
             ''export interface Address {'' @ newline @ ''  street?: Name;'' @ newline @ ''}'',
             ''export interface Person {'' @ newline @ ''  address?: Address;'' @ newline
               @ ''  nick?: Name;'' @ newline @ ''}'']",
       THEN conjunct1]
  have all: "length familyAfter = length familyStore
      \<and> (\<forall>a<length familyStore.
            n_notes (familyAfter ! a)
              = addNotes (exportedAs a (cli_schemaTypes familyExports)) (n_notes (familyStore ! a))
            \<and> (familyAfter ! a)\<lparr>n_notes := n_notes (familyStore ! a)\<rparr> = familyStore ! a)"
    by (rule mp [rotated])
  have l: "0 < length familyStore" "2 < length familyStore" by (simp_all add: familyStore_def)
  from all l have n: "n_notes (familyAfter ! 0)
       = addNotes (exportedAs 0 (cli_schemaTypes familyExports)) (n_notes (familyStore ! 0))"
    "n_notes (familyAfter ! 2)
       = addNotes (exportedAs 2 (cli_schemaTypes familyExports)) (n_notes (familyStore ! 2))"
    "(familyAfter ! 2)\<lparr>n_notes := n_notes (familyStore ! 2)\<rparr> = familyStore ! 2"
    by blast+
  have e: "n_notes (familyAfter ! 0) = [''type:Name'']"
    "n_notes (familyAfter ! 2) = [''person'', ''type:Person'']"
    by (simp_all add: familyAfter_def)
  from family_run all n e show ?thesis by (simp only: simp_thms)
qed

text \<open>
  In a store whose references point below, every object has its schema tree, before and
  after a push: the writers of a run are never refused their schema.
\<close>

lemma those_map_defined: "(\<forall>x\<in>set xs. f x \<noteq> None) \<Longrightarrow> those (map f xs) \<noteq> None"
  by (induction xs) (auto split: option.splits)

lemma schemaAt_defined:
  assumes "wellFormed st"
  shows "a < length st \<Longrightarrow> schemaAt st a \<noteq> None"
proof (induction a rule: less_induct)
  case (less a)
  from assms less.prems have
    i: "\<forall>c\<in>set (n_items (st ! a)). c < a"
    and k: "\<forall>kc\<in>set (n_children (st ! a)). snd kc < a"
    and m: "\<forall>c\<in>set (n_matches (st ! a)). c < a"
    unfolding wellFormed_def by blast+
  have 1: "those (map (\<lambda>c. if c < a then schemaAt st c else None) (n_items (st ! a))) \<noteq> None"
    using i less by (intro those_map_defined) auto
  have 2: "those (map (\<lambda>kc. if snd kc < a
                                 then map_option (Pair (fst kc)) (schemaAt st (snd kc))
                                 else None) (n_children (st ! a))) \<noteq> None"
    using k less by (intro those_map_defined) auto
  have 3: "those (map (\<lambda>c. if c < a then schemaAt st c else None) (n_matches (st ! a))) \<noteq> None"
    using m less by (intro those_map_defined) auto
  from 1 2 3 less.prems show ?case
    by (subst schemaAt.simps) auto
qed

lemma refs_pushNote:
  "b < length st \<Longrightarrow>
     n_items (pushNote name a st ! b) = n_items (st ! b)
     \<and> n_children (pushNote name a st ! b) = n_children (st ! b)
     \<and> n_matches (pushNote name a st ! b) = n_matches (st ! b)"
  by (cases "b = a") (simp_all add: pushNote_def)

lemma wellFormed_pushNote: "wellFormed st \<Longrightarrow> wellFormed (pushNote name a st)"
proof -
  have l: "length (pushNote name a st) = length st" by (simp add: pushNote_def)
  assume "wellFormed st"
  then show ?thesis unfolding wellFormed_def l by (simp add: refs_pushNote)
qed

end
